theory Spec2Isabelle
  imports Complex_Main "HOL-Library.Multiset"
begin

section \<open>Identifiers, serialized trees, deltas\<close>

text \<open>
  The identifiers of \<^verbatim>\<open>Serialization::VCS\<close> and \<^verbatim>\<open>Serialization::Midi\<close> that
  \<^verbatim>\<open>AutomationTrackDiffLogic.cpp\<close> dispatches on. The schema constants themselves are
  declared outside the translated sources; the only thing the code does with them is to
  compare them, so they are the constructors of one datatype (pairwise different), and
  every other identifier is \<open>OtherIdentifier\<close>.
  The last four are the attribute names of an automation event node.
\<close>

datatype Identifier =
    trackPath | trackColour | trackInstrument | trackController
  | timeSignaturesChanged
  | eventsAdded | eventsRemoved | eventsChanged
  | clipsAdded | clipsRemoved | clipsChanged
  | automationEvent
  | attrId | attrBeat | attrCurvature | attrValue
  | OtherIdentifier string

text \<open>A primitive attribute value of a tree node.\<close>

datatype var = VarVoid | VarInt int | VarReal real | VarString string

text \<open>
  Modelled from the spec: the container \<^verbatim>\<open>SerializedData\<close> (declared outside the
  translated sources), "an opaque ordered tree of named nodes with child lookup by type
  tag, equality comparison and deep copy". A default-constructed \<^verbatim>\<open>SerializedData\<close> is
  not valid; \<^verbatim>\<open>SerializedData(tag)\<close> is a valid node with no attributes and no children.
\<close>

datatype SerializedData =
    Invalid
  | Tree Identifier "(Identifier \<times> var) list" "SerializedData list"

fun isValid :: "SerializedData \<Rightarrow> bool" where
  "isValid Invalid = False"
| "isValid (Tree t ps cs) = True"

fun hasTypeData :: "SerializedData \<Rightarrow> Identifier \<Rightarrow> bool" where
  "hasTypeData Invalid t = False"
| "hasTypeData (Tree t' ps cs) t = (t' = t)"

fun getChildren :: "SerializedData \<Rightarrow> SerializedData list" where
  "getChildren Invalid = []"
| "getChildren (Tree t ps cs) = cs"

fun getProperty :: "SerializedData \<Rightarrow> Identifier \<Rightarrow> var" where
  "getProperty Invalid k = VarVoid"
| "getProperty (Tree t ps cs) k = (case map_of ps k of None \<Rightarrow> VarVoid | Some v \<Rightarrow> v)"

text \<open>\<^verbatim>\<open>SerializedData(tag)\<close>\<close>

definition emptyData :: "Identifier \<Rightarrow> SerializedData" where
  "emptyData tag = Tree tag [] []"

text \<open>\<^verbatim>\<open>tree.appendChild(child)\<close>\<close>

fun appendChild :: "SerializedData \<Rightarrow> SerializedData \<Rightarrow> SerializedData" where
  "appendChild Invalid c = Invalid"
| "appendChild (Tree t ps cs) c = Tree t ps (cs @ [c])"

text \<open>
  \<^verbatim>\<open>createCopy()\<close> is a deep copy. Trees are values here, so the copy is the tree itself.
\<close>

definition createCopy :: "SerializedData \<Rightarrow> SerializedData" where
  "createCopy d = d"

text \<open>\<^verbatim>\<open>forEachChildWithType(data, e, type)\<close>: the children with that tag, in order.\<close>

definition childrenWithType :: "SerializedData \<Rightarrow> Identifier \<Rightarrow> SerializedData list" where
  "childrenWithType d t = filter (\<lambda>c. hasTypeData c t) (getChildren d)"

text \<open>
  Modelled from the spec: \<^verbatim>\<open>Delta\<close> and \<^verbatim>\<open>DeltaDescription\<close> (declared outside the
  translated sources): "a type tag, a human-readable description, and optionally a change
  count". \<^verbatim>\<open>DeltaDiff\<close> pairs a delta with its payload.
\<close>

datatype DeltaDescription = DeltaDescription string "int option"

record Delta =
  getDescription :: DeltaDescription
  getType :: Identifier

record DeltaDiff =
  delta :: Delta
  deltaData :: SerializedData

text \<open>\<^verbatim>\<open>make<Delta>(description, type)\<close>\<close>

definition makeDelta :: "DeltaDescription \<Rightarrow> Identifier \<Rightarrow> Delta" where
  "makeDelta d t = \<lparr>getDescription = d, getType = t\<rparr>"

definition hasType :: "Delta \<Rightarrow> Identifier \<Rightarrow> bool" where
  "hasType d t = (getType d = t)"

text \<open>
  The description key \<^verbatim>\<open>Serialization::VCS::headStateDelta\<close>, a schema constant; only its
  identity matters.
\<close>

definition headStateDelta :: DeltaDescription where
  "headStateDelta = DeltaDescription ''headStateDelta'' None"

section \<open>Automation events\<close>

text \<open>
  Modelled from the spec: \<^verbatim>\<open>AutomationEvent\<close> (declared outside the translated sources),
  "id: stable identity, beat: float position, curvature: float, controllerValue: numeric".
  The fields are named after the getters the code calls. The positions are real numbers
  here: the code only compares them, and a float that is not a number is not modelled.
\<close>

record AutomationEvent =
  getId :: int
  getBeat :: real
  getCurvature :: real
  getControllerValue :: real

text \<open>
  Modelled from the spec: \<^verbatim>\<open>AutomationEvent::serialize\<close> and \<^verbatim>\<open>deserialize\<close> (outside
  the translated sources): a record node tagged as an automation event "carrying scalar
  attributes (id, beat, curvature, value) as primitive fields". A missing or ill-typed
  attribute reads as 0.
\<close>

definition serialize :: "AutomationEvent \<Rightarrow> SerializedData" where
  "serialize e = Tree automationEvent
     [(attrId, VarInt (getId e)), (attrBeat, VarReal (getBeat e)),
      (attrCurvature, VarReal (getCurvature e)), (attrValue, VarReal (getControllerValue e))] []"

fun varToInt :: "var \<Rightarrow> int" where
  "varToInt (VarInt i) = i"
| "varToInt v = 0"

fun varToReal :: "var \<Rightarrow> real" where
  "varToReal (VarReal r) = r"
| "varToReal (VarInt i) = of_int i"
| "varToReal v = 0"

definition deserialize :: "SerializedData \<Rightarrow> AutomationEvent" where
  "deserialize d =
     \<lparr>getId = varToInt (getProperty d attrId),
      getBeat = varToReal (getProperty d attrBeat),
      getCurvature = varToReal (getProperty d attrCurvature),
      getControllerValue = varToReal (getProperty d attrValue)\<rparr>"

text \<open>
  Modelled from the spec: \<^verbatim>\<open>OwnedArray::addSorted\<close> with the event comparator (both
  outside the translated sources): "events within one sequence are kept sorted by beat".
  The new event is inserted behind the events whose beat is not greater. The spec does not
  say where an event goes among events of the same beat; no statement below depends on it.
\<close>

fun addSorted :: "AutomationEvent \<Rightarrow> AutomationEvent list \<Rightarrow> AutomationEvent list" where
  "addSorted e [] = [e]"
| "addSorted e (x # xs) = (if getBeat e < getBeat x then e # x # xs else x # addSorted e xs)"

text \<open>One half of \<^verbatim>\<open>deserializeAutoTrackChanges\<close>: the events of one payload.\<close>

definition deserializeNotes :: "SerializedData \<Rightarrow> AutomationEvent list" where
  "deserializeNotes d =
     (if isValid d
      then fold (\<lambda>e notes. addSorted (deserialize e) notes) (childrenWithType d automationEvent) []
      else [])"

definition deserializeAutoTrackChanges ::
  "SerializedData \<Rightarrow> SerializedData \<Rightarrow> AutomationEvent list \<times> AutomationEvent list" where
  "deserializeAutoTrackChanges state changes = (deserializeNotes state, deserializeNotes changes)"

text \<open>\<^verbatim>\<open>serializeAutoSequence\<close>: a node with the given tag and one child per event.\<close>

definition serializeAutoSequence :: "AutomationEvent list \<Rightarrow> Identifier \<Rightarrow> SerializedData" where
  "serializeAutoSequence changes tag = fold (\<lambda>event tree. appendChild tree (serialize event)) changes (emptyData tag)"

definition serializeAutoTrackChanges ::
  "AutomationEvent list \<Rightarrow> string \<Rightarrow> int \<Rightarrow> Identifier \<Rightarrow> DeltaDiff" where
  "serializeAutoTrackChanges changes description numChanges deltaType =
     \<lparr>delta = makeDelta (DeltaDescription description (Some numChanges)) deltaType,
      deltaData = serializeAutoSequence changes deltaType\<rparr>"

text \<open>The event children of a payload, in the order in which the payload lists them.\<close>

definition eventsOf :: "SerializedData \<Rightarrow> AutomationEvent list" where
  "eventsOf d = map deserialize (childrenWithType d automationEvent)"

section \<open>Merging event sequences\<close>

text \<open>
  The inner loops of the merge and diff functions: the index of the first note with the
  given id, if there is one (the loop breaks at the first hit).
\<close>

fun findNote :: "int \<Rightarrow> AutomationEvent list \<Rightarrow> nat option" where
  "findNote i [] = None"
| "findNote i (n # ns) = (if getId n = i then Some 0 else map_option Suc (findNote i ns))"

definition mergeAutoEventsAdded :: "SerializedData \<Rightarrow> SerializedData \<Rightarrow> SerializedData" where
  "mergeAutoEventsAdded state changes =
     (let (stateNotes, changesNotes) = deserializeAutoTrackChanges state changes;
          result = fold (\<lambda>changesNote result.
                      if findNote (getId changesNote) stateNotes = None
                      then result @ [changesNote] else result)
                    changesNotes stateNotes
      in serializeAutoSequence result eventsAdded)"

definition mergeAutoEventsRemoved :: "SerializedData \<Rightarrow> SerializedData \<Rightarrow> SerializedData" where
  "mergeAutoEventsRemoved state changes =
     (let (stateNotes, changesNotes) = deserializeAutoTrackChanges state changes;
          result = fold (\<lambda>stateNote result.
                      if findNote (getId stateNote) changesNotes = None
                      then result @ [stateNote] else result)
                    stateNotes []
      in serializeAutoSequence result eventsAdded)"

text \<open>
  \<^verbatim>\<open>mergeAutoEventsChanged\<close> works on an array of pointers and removes and looks up
  entries by pointer, so the result array holds references: to the i-th state note or
  to the j-th changes note.
\<close>

datatype NoteRef = StateNote nat | ChangesNote nat

definition removeAllInstancesOf :: "NoteRef list \<Rightarrow> NoteRef \<Rightarrow> NoteRef list" where
  "removeAllInstancesOf result r = filter (\<lambda>x. x \<noteq> r) result"

definition addIfNotAlreadyThere :: "NoteRef list \<Rightarrow> NoteRef \<Rightarrow> NoteRef list" where
  "addIfNotAlreadyThere result r = (if r \<in> set result then result else result @ [r])"

fun deref :: "AutomationEvent list \<Rightarrow> AutomationEvent list \<Rightarrow> NoteRef \<Rightarrow> AutomationEvent" where
  "deref stateNotes changesNotes (StateNote i) = stateNotes ! i"
| "deref stateNotes changesNotes (ChangesNote j) = changesNotes ! j"

definition changedStep :: "AutomationEvent list \<Rightarrow> AutomationEvent list \<Rightarrow> nat \<Rightarrow> NoteRef list \<Rightarrow> NoteRef list" where
  "changedStep stateNotes changesNotes i result =
     (case findNote (getId (stateNotes ! i)) changesNotes of
        None \<Rightarrow> result
      | Some j \<Rightarrow> addIfNotAlreadyThere (removeAllInstancesOf result (StateNote i)) (ChangesNote j))"

definition mergeAutoEventsChanged :: "SerializedData \<Rightarrow> SerializedData \<Rightarrow> SerializedData" where
  "mergeAutoEventsChanged state changes =
     (let (stateNotes, changesNotes) = deserializeAutoTrackChanges state changes;
          result = fold (changedStep stateNotes changesNotes) [0..<length stateNotes]
                     (map StateNote [0..<length stateNotes])
      in serializeAutoSequence (map (deref stateNotes changesNotes) result) eventsAdded)"

section \<open>Diffing event sequences\<close>

definition eventHasChanged :: "AutomationEvent \<Rightarrow> AutomationEvent \<Rightarrow> bool" where
  "eventHasChanged stateEvent changesEvent =
     (getBeat stateEvent \<noteq> getBeat changesEvent \<or>
      getCurvature stateEvent \<noteq> getCurvature changesEvent \<or>
      getControllerValue stateEvent \<noteq> getControllerValue changesEvent)"

text \<open>The first loop of \<^verbatim>\<open>createAutoEventsDiffs\<close>; the pair is (removedEvents, changedEvents).\<close>

definition diffStateStep ::
  "AutomationEvent list \<Rightarrow> AutomationEvent \<Rightarrow> AutomationEvent list \<times> AutomationEvent list
   \<Rightarrow> AutomationEvent list \<times> AutomationEvent list" where
  "diffStateStep changesEvents stateEvent acc =
     (case findNote (getId stateEvent) changesEvents of
        None \<Rightarrow> (fst acc @ [stateEvent], snd acc)
      | Some j \<Rightarrow>
          (if eventHasChanged stateEvent (changesEvents ! j)
           then (fst acc, snd acc @ [changesEvents ! j]) else acc))"

definition removedEvents :: "AutomationEvent list \<Rightarrow> AutomationEvent list \<Rightarrow> AutomationEvent list" where
  "removedEvents stateEvents changesEvents = fst (fold (diffStateStep changesEvents) stateEvents ([], []))"

definition changedEvents :: "AutomationEvent list \<Rightarrow> AutomationEvent list \<Rightarrow> AutomationEvent list" where
  "changedEvents stateEvents changesEvents = snd (fold (diffStateStep changesEvents) stateEvents ([], []))"

text \<open>The second loop.\<close>

definition addedEvents :: "AutomationEvent list \<Rightarrow> AutomationEvent list \<Rightarrow> AutomationEvent list" where
  "addedEvents stateEvents changesEvents =
     fold (\<lambda>changesNote added.
             if findNote (getId changesNote) stateEvents = None then added @ [changesNote] else added)
       changesEvents []"

definition createAutoEventsDiffs :: "SerializedData \<Rightarrow> SerializedData \<Rightarrow> DeltaDiff list" where
  "createAutoEventsDiffs state changes =
     (let (stateEvents, changesEvents) = deserializeAutoTrackChanges state changes;
          added = addedEvents stateEvents changesEvents;
          removed = removedEvents stateEvents changesEvents;
          changed = changedEvents stateEvents changesEvents;
          res1 = (if length added > 0
                  then [serializeAutoTrackChanges added ''added {x} events'' (int (length added)) eventsAdded]
                  else []);
          res2 = (if length removed > 0
                  then res1 @ [serializeAutoTrackChanges removed ''removed {x} events'' (int (length removed)) eventsRemoved]
                  else res1);
          res3 = (if length changed > 0
                  then res2 @ [serializeAutoTrackChanges changed ''changed {x} events'' (int (length changed)) eventsChanged]
                  else res2)
      in res3)"

text \<open>
  The record that the inner loop of a merge or diff function stops at for a given state
  event: the first changes event with the same id. It is only used where such an event
  exists.
\<close>

definition counterpart :: "AutomationEvent list \<Rightarrow> AutomationEvent \<Rightarrow> AutomationEvent" where
  "counterpart changesNotes stateNote = changesNotes ! the (findNote (getId stateNote) changesNotes)"

definition matchOf :: "AutomationEvent list \<Rightarrow> AutomationEvent list \<Rightarrow> nat \<Rightarrow> nat option" where
  "matchOf stateNotes changesNotes i = findNote (getId (stateNotes ! i)) changesNotes"

section \<open>Merging two tracked items\<close>

text \<open>
  Modelled from the spec: \<^verbatim>\<open>mergePath\<close>, \<^verbatim>\<open>mergeColour\<close>, \<^verbatim>\<open>mergeInstrument\<close> and
  \<^verbatim>\<open>mergeTimeSignature\<close>, which the file declares \<^verbatim>\<open>extern\<close> (they are defined outside
  the translated sources): "last-write-wins: merge(state, changes) = changes (a deep copy),
  unconditionally".
\<close>

definition mergePath :: "SerializedData \<Rightarrow> SerializedData \<Rightarrow> SerializedData" where
  "mergePath state changes = createCopy changes"

definition mergeColour :: "SerializedData \<Rightarrow> SerializedData \<Rightarrow> SerializedData" where
  "mergeColour state changes = createCopy changes"

definition mergeInstrument :: "SerializedData \<Rightarrow> SerializedData \<Rightarrow> SerializedData" where
  "mergeInstrument state changes = createCopy changes"

definition mergeTimeSignature :: "SerializedData \<Rightarrow> SerializedData \<Rightarrow> SerializedData" where
  "mergeTimeSignature state changes = createCopy changes"

text \<open>\<^verbatim>\<open>mergeController\<close>, from the file itself.\<close>

definition mergeController :: "SerializedData \<Rightarrow> SerializedData \<Rightarrow> SerializedData" where
  "mergeController state changes = createCopy changes"

definition checkIfDeltaIsEventsType :: "Delta \<Rightarrow> bool" where
  "checkIfDeltaIsEventsType d =
     (hasType d eventsAdded \<or> hasType d eventsChanged \<or> hasType d eventsRemoved)"

text \<open>
  Modelled from the spec: \<^verbatim>\<open>PatternDiffHelpers::checkIfDeltaIsPatternType\<close> (outside the
  translated sources): the clip deltas are "handled via a shared pattern-diff helper,
  structurally identical to the event case", so the pattern family is the three clip types.
\<close>

definition checkIfDeltaIsPatternType :: "Delta \<Rightarrow> bool" where
  "checkIfDeltaIsPatternType d =
     (hasType d clipsAdded \<or> hasType d clipsChanged \<or> hasType d clipsRemoved)"

text \<open>
  The three clip mergers of \<^verbatim>\<open>PatternDiffHelpers\<close> are defined outside the translated
  sources. They are parameters of the merge: every result below holds for any three
  functions.
\<close>

record PatternDiffHelpers =
  mergeClipsAdded :: "SerializedData \<Rightarrow> SerializedData \<Rightarrow> SerializedData"
  mergeClipsRemoved :: "SerializedData \<Rightarrow> SerializedData \<Rightarrow> SerializedData"
  mergeClipsChanged :: "SerializedData \<Rightarrow> SerializedData \<Rightarrow> SerializedData"

text \<open>
  A tracked item is the sequence of its deltas with their payloads (\<^verbatim>\<open>getNumDeltas\<close>,
  \<^verbatim>\<open>getDelta(i)\<close>, \<^verbatim>\<open>getDeltaData(i)\<close>).
  Modelled from the spec: \<^verbatim>\<open>Diff\<close> (outside the translated sources), "an ordered
  collection of DeltaDiffs accumulated while comparing or merging"; \<^verbatim>\<open>applyDelta\<close>
  appends one.
\<close>

type_synonym TrackedItem = "(Delta \<times> SerializedData) list"

type_synonym Diff = "DeltaDiff list"

definition applyDelta :: "Diff \<Rightarrow> Delta \<Rightarrow> SerializedData \<Rightarrow> Diff" where
  "applyDelta diff d data = diff @ [\<lparr>delta = d, deltaData = data\<rparr>]"

text \<open>The branch of the inner loop for two deltas of the same type.\<close>

definition mergeStrict :: "SerializedData \<Rightarrow> Delta \<Rightarrow> SerializedData \<Rightarrow> Diff \<Rightarrow> Diff" where
  "mergeStrict stateDeltaData targetDelta targetDeltaData diff =
     (if hasType targetDelta trackPath
      then applyDelta diff (makeDelta (getDescription targetDelta) (getType targetDelta))
             (mergePath stateDeltaData targetDeltaData)
      else if hasType targetDelta trackColour
      then applyDelta diff (makeDelta (getDescription targetDelta) (getType targetDelta))
             (mergeColour stateDeltaData targetDeltaData)
      else if hasType targetDelta trackInstrument
      then applyDelta diff (makeDelta (getDescription targetDelta) (getType targetDelta))
             (mergeInstrument stateDeltaData targetDeltaData)
      else if hasType targetDelta trackController
      then applyDelta diff (makeDelta (getDescription targetDelta) (getType targetDelta))
             (mergeController stateDeltaData targetDeltaData)
      else if hasType targetDelta timeSignaturesChanged
      then applyDelta diff (makeDelta (getDescription targetDelta) (getType targetDelta))
             (mergeTimeSignature stateDeltaData targetDeltaData)
      else diff)"

text \<open>
  The branch for two deltas of the events family: the new value of \<^verbatim>\<open>eventsDeltaData\<close>.
\<close>

definition mergeEvents ::
  "SerializedData \<Rightarrow> Delta \<Rightarrow> SerializedData \<Rightarrow> SerializedData \<Rightarrow> SerializedData" where
  "mergeEvents stateDeltaData targetDelta targetDeltaData eventsDeltaData =
     (let incrementalMerge = isValid eventsDeltaData;
          base = (if incrementalMerge then eventsDeltaData else stateDeltaData)
      in if hasType targetDelta eventsAdded then mergeAutoEventsAdded base targetDeltaData
         else if hasType targetDelta eventsRemoved then mergeAutoEventsRemoved base targetDeltaData
         else if hasType targetDelta eventsChanged then mergeAutoEventsChanged base targetDeltaData
         else eventsDeltaData)"

text \<open>
  The branch for two deltas of the pattern family: the new value of \<^verbatim>\<open>clipsDeltaData\<close>.
  The second pass runs the same chain on an empty base.
\<close>

definition mergeClips ::
  "PatternDiffHelpers \<Rightarrow> SerializedData \<Rightarrow> Delta \<Rightarrow> SerializedData \<Rightarrow> SerializedData \<Rightarrow> SerializedData" where
  "mergeClips helpers stateDeltaData targetDelta targetDeltaData clipsDeltaData =
     (let incrementalMerge = isValid clipsDeltaData;
          base = (if incrementalMerge then clipsDeltaData else stateDeltaData)
      in if hasType targetDelta clipsAdded then mergeClipsAdded helpers base targetDeltaData
         else if hasType targetDelta clipsRemoved then mergeClipsRemoved helpers base targetDeltaData
         else if hasType targetDelta clipsChanged then mergeClipsChanged helpers base targetDeltaData
         else clipsDeltaData)"

text \<open>The variables that the inner loop of the first pass updates.\<close>

record MergeLoop =
  deltaFoundInChanges :: bool
  eventsDeltaData :: SerializedData
  clipsDeltaData :: SerializedData
  diff :: Diff

text \<open>The body of the inner loop, for one target delta.\<close>

definition mergeTargetDelta ::
  "PatternDiffHelpers \<Rightarrow> Delta \<Rightarrow> SerializedData \<Rightarrow> Delta \<times> SerializedData \<Rightarrow> MergeLoop \<Rightarrow> MergeLoop" where
  "mergeTargetDelta helpers stateDelta stateDeltaData td st =
     (let targetDelta = fst td;
          targetDeltaData = snd td;
          st1 = (if getType stateDelta = getType targetDelta
                 then st\<lparr>deltaFoundInChanges := True,
                         diff := mergeStrict stateDeltaData targetDelta targetDeltaData (diff st)\<rparr>
                 else st);
          st2 = (if checkIfDeltaIsEventsType stateDelta \<and> checkIfDeltaIsEventsType targetDelta
                 then st1\<lparr>deltaFoundInChanges := True,
                          eventsDeltaData := mergeEvents stateDeltaData targetDelta targetDeltaData
                                               (eventsDeltaData st1)\<rparr>
                 else st1);
          st3 = (if checkIfDeltaIsPatternType stateDelta \<and> checkIfDeltaIsPatternType targetDelta
                 then st2\<lparr>deltaFoundInChanges := True,
                          clipsDeltaData := mergeClips helpers stateDeltaData targetDelta targetDeltaData
                                              (clipsDeltaData st2)\<rparr>
                 else st2)
      in st3)"

text \<open>The body of the outer loop of the first pass, for one state delta.\<close>

definition mergeStateDelta ::
  "PatternDiffHelpers \<Rightarrow> TrackedItem \<Rightarrow> Delta \<times> SerializedData \<Rightarrow> Diff \<Rightarrow> Diff" where
  "mergeStateDelta helpers target sd diff0 =
     (let stateDelta = fst sd;
          stateDeltaData = snd sd;
          st = fold (mergeTargetDelta helpers stateDelta stateDeltaData) target
                 \<lparr>deltaFoundInChanges = False, eventsDeltaData = Invalid,
                  clipsDeltaData = Invalid, diff = diff0\<rparr>;
          d1 = (if isValid (eventsDeltaData st)
                then applyDelta (diff st) (makeDelta headStateDelta eventsAdded) (eventsDeltaData st)
                else diff st);
          d2 = (if isValid (clipsDeltaData st)
                then applyDelta d1 (makeDelta headStateDelta clipsAdded) (clipsDeltaData st)
                else d1);
          d3 = (if \<not> deltaFoundInChanges st
                then applyDelta d2 stateDelta stateDeltaData
                else d2)
      in d3)"

text \<open>The second pass: the two flags, and the two deltas it adds.\<close>

definition stateHasClips :: "TrackedItem \<Rightarrow> bool" where
  "stateHasClips state = fold (\<lambda>sd b. b \<or> checkIfDeltaIsPatternType (fst sd)) state False"

definition stateHasTrackTimeSignature :: "TrackedItem \<Rightarrow> bool" where
  "stateHasTrackTimeSignature state =
     fold (\<lambda>sd b. b \<or> hasType (fst sd) timeSignaturesChanged) state False"

definition resolveTimeSignature :: "TrackedItem \<Rightarrow> Diff \<Rightarrow> Diff" where
  "resolveTimeSignature target diff0 =
     (let emptyTimeSignatureDeltaData = emptyData timeSignaturesChanged;
          timeSignatureDelta = makeDelta headStateDelta timeSignaturesChanged;
          mergedTimeSignatureDeltaData =
            fold (\<lambda>td merged.
                    if hasType (fst td) timeSignaturesChanged
                    then mergeTimeSignature emptyTimeSignatureDeltaData (snd td)
                    else merged)
              target Invalid
      in if isValid mergedTimeSignatureDeltaData
         then applyDelta diff0 timeSignatureDelta mergedTimeSignatureDeltaData
         else applyDelta diff0 timeSignatureDelta emptyTimeSignatureDeltaData)"

definition resolveClips :: "PatternDiffHelpers \<Rightarrow> TrackedItem \<Rightarrow> Diff \<Rightarrow> Diff" where
  "resolveClips helpers target diff0 =
     (let emptyClipsDeltaData = emptyData clipsAdded;
          clipsDelta = makeDelta headStateDelta clipsAdded;
          mergedClipsDeltaData =
            fold (\<lambda>td merged.
                    if checkIfDeltaIsPatternType (fst td)
                    then mergeClips helpers emptyClipsDeltaData (fst td) (snd td) merged
                    else merged)
              target Invalid
      in if isValid mergedClipsDeltaData
         then applyDelta diff0 clipsDelta mergedClipsDeltaData
         else applyDelta diff0 clipsDelta emptyClipsDeltaData)"

text \<open>
  \<^verbatim>\<open>AutomationTrackDiffLogic::createMergedItem\<close>; \<open>state\<close> is \<^verbatim>\<open>initialState\<close> and
  \<open>target\<close> is \<^verbatim>\<open>this->target\<close>. The result is the list of deltas of the new diff.
\<close>

definition createMergedItem :: "PatternDiffHelpers \<Rightarrow> TrackedItem \<Rightarrow> TrackedItem \<Rightarrow> Diff" where
  "createMergedItem helpers state target =
     (let diff1 = fold (mergeStateDelta helpers target) state [];
          diff2 = (if \<not> stateHasTrackTimeSignature state
                   then resolveTimeSignature target diff1 else diff1);
          diff3 = (if \<not> stateHasClips state
                   then resolveClips helpers target diff2 else diff2)
      in diff3)"


section \<open>Views of a diff and of the first pass\<close>

text \<open>
  The deltas of one family, or of one type, in a diff; they are what the statements about
  \<open>createMergedItem\<close> count.
\<close>

definition eventsDeltas :: "Diff \<Rightarrow> Diff" where
  "eventsDeltas d = filter (\<lambda>dd. checkIfDeltaIsEventsType (delta dd)) d"

definition clipsDeltas :: "Diff \<Rightarrow> Diff" where
  "clipsDeltas d = filter (\<lambda>dd. checkIfDeltaIsPatternType (delta dd)) d"

definition timeSignatureDeltas :: "Diff \<Rightarrow> Diff" where
  "timeSignatureDeltas d = filter (\<lambda>dd. hasType (delta dd) timeSignaturesChanged) d"

definition deltasOfType :: "Identifier \<Rightarrow> Diff \<Rightarrow> Diff" where
  "deltasOfType t d = filter (\<lambda>dd. hasType (delta dd) t) d"

text \<open>The five types that the branch for two deltas of the same type handles.\<close>

definition scalarType :: "Identifier \<Rightarrow> bool" where
  "scalarType t = (t = trackPath \<or> t = trackColour \<or> t = trackInstrument \<or> t = trackController
                   \<or> t = timeSignaturesChanged)"

text \<open>
  The three tests of the inner loop that set \<^verbatim>\<open>deltaFoundInChanges\<close>, and the parts of the
  state of the inner loop after the whole target has been scanned for one state delta:
  what the branch for equal types appends for one target delta, and the accumulated events
  and clips payloads. \<open>emitted\<close> is what the first pass appends to the diff for one state
  delta; \<open>timeSignatureResolved\<close> and \<open>clipsResolved\<close> are what the second pass appends.
  The lemmas \<open>fold_mergeTargetDelta\<close>, \<open>mergeStateDelta_eq\<close> and \<open>createMergedItem_eq\<close>
  below prove that the loops compute exactly these.
\<close>

definition deltasMatch :: "Delta \<Rightarrow> Delta \<Rightarrow> bool" where
  "deltasMatch stateDelta targetDelta =
     (getType stateDelta = getType targetDelta
      \<or> (checkIfDeltaIsEventsType stateDelta \<and> checkIfDeltaIsEventsType targetDelta)
      \<or> (checkIfDeltaIsPatternType stateDelta \<and> checkIfDeltaIsPatternType targetDelta))"

definition strictOutput :: "Delta \<Rightarrow> SerializedData \<Rightarrow> Delta \<times> SerializedData \<Rightarrow> Diff" where
  "strictOutput stateDelta stateDeltaData td =
     (if getType stateDelta = getType (fst td) then mergeStrict stateDeltaData (fst td) (snd td) [] else [])"

definition eventsAccumulated :: "Delta \<Rightarrow> SerializedData \<Rightarrow> TrackedItem \<Rightarrow> SerializedData \<Rightarrow> SerializedData" where
  "eventsAccumulated stateDelta stateDeltaData target e0 =
     fold (\<lambda>td e. if checkIfDeltaIsEventsType stateDelta \<and> checkIfDeltaIsEventsType (fst td)
                   then mergeEvents stateDeltaData (fst td) (snd td) e else e) target e0"

definition clipsAccumulated ::
  "PatternDiffHelpers \<Rightarrow> Delta \<Rightarrow> SerializedData \<Rightarrow> TrackedItem \<Rightarrow> SerializedData \<Rightarrow> SerializedData" where
  "clipsAccumulated helpers stateDelta stateDeltaData target c0 =
     fold (\<lambda>td c. if checkIfDeltaIsPatternType stateDelta \<and> checkIfDeltaIsPatternType (fst td)
                   then mergeClips helpers stateDeltaData (fst td) (snd td) c else c) target c0"

definition emitted :: "PatternDiffHelpers \<Rightarrow> TrackedItem \<Rightarrow> Delta \<times> SerializedData \<Rightarrow> Diff" where
  "emitted h target sd =
     concat (map (strictOutput (fst sd) (snd sd)) target) @
     (if isValid (eventsAccumulated (fst sd) (snd sd) target Invalid)
      then [\<lparr>delta = makeDelta headStateDelta eventsAdded,
             deltaData = eventsAccumulated (fst sd) (snd sd) target Invalid\<rparr>] else []) @
     (if isValid (clipsAccumulated h (fst sd) (snd sd) target Invalid)
      then [\<lparr>delta = makeDelta headStateDelta clipsAdded,
             deltaData = clipsAccumulated h (fst sd) (snd sd) target Invalid\<rparr>] else []) @
     (if \<exists>td \<in> set target. deltasMatch (fst sd) (fst td) then []
      else [\<lparr>delta = fst sd, deltaData = snd sd\<rparr>])"

definition timeSignatureResolved :: "TrackedItem \<Rightarrow> Diff" where
  "timeSignatureResolved target = resolveTimeSignature target []"

definition clipsResolved :: "PatternDiffHelpers \<Rightarrow> TrackedItem \<Rightarrow> Diff" where
  "clipsResolved h target = resolveClips h target []"

section \<open>Example inputs\<close>

text \<open>
  An event with the given id and beat (curvature and controller value 0), and the two
  sequences of the collection-diff example: state \<open>[{id:1,beat:0},{id:2,beat:1}]\<close> and
  changes \<open>[{id:2,beat:2},{id:3,beat:3}]\<close>.
\<close>

definition ev :: "int \<Rightarrow> real \<Rightarrow> AutomationEvent" where
  "ev i b = \<lparr>getId = i, getBeat = b, getCurvature = 0, getControllerValue = 0\<rparr>"

definition specExampleState :: SerializedData where
  "specExampleState = Tree eventsAdded [] [serialize (ev 1 0), serialize (ev 2 1)]"

definition specExampleChanges :: SerializedData where
  "specExampleChanges = Tree eventsAdded [] [serialize (ev 2 2), serialize (ev 3 3)]"

text \<open>
  Two sequences where the only changes event lies before the only state event, and two
  sequences whose events swap their beat order between state and changes.
\<close>

definition lateState :: SerializedData where
  "lateState = Tree eventsAdded [] [serialize (ev 1 5)]"

definition earlyChanges :: SerializedData where
  "earlyChanges = Tree eventsAdded [] [serialize (ev 2 1)]"

definition crossingState :: SerializedData where
  "crossingState = Tree eventsAdded [] [serialize (ev 1 0), serialize (ev 2 3)]"

definition crossingChanges :: SerializedData where
  "crossingChanges = Tree eventsChanged [] [serialize (ev 1 5), serialize (ev 2 4)]"

text \<open>
  Tracked items: a stand-in for the three clip mergers, a state and a target with one path
  delta each (the paths "A" and "B" of the last-write-wins example), a target with one time
  signature delta, and states and a target with deltas of the events family.
\<close>

definition keepChanges :: "SerializedData \<Rightarrow> SerializedData \<Rightarrow> SerializedData" where
  "keepChanges state changes = changes"

definition exampleHelpers :: PatternDiffHelpers where
  "exampleHelpers = \<lparr>mergeClipsAdded = keepChanges, mergeClipsRemoved = keepChanges,
                      mergeClipsChanged = keepChanges\<rparr>"

definition pathA :: SerializedData where
  "pathA = Tree trackPath [(OtherIdentifier ''path'', VarString ''A'')] []"

definition pathB :: SerializedData where
  "pathB = Tree trackPath [(OtherIdentifier ''path'', VarString ''B'')] []"

definition pathState :: TrackedItem where
  "pathState = [(makeDelta headStateDelta trackPath, pathA)]"

definition pathTarget :: TrackedItem where
  "pathTarget = [(makeDelta (DeltaDescription ''moved'' None) trackPath, pathB)]"

definition timeSignatureData :: SerializedData where
  "timeSignatureData = Tree timeSignaturesChanged [] [Tree (OtherIdentifier ''timeSignature'') [] []]"

definition timeSignatureTarget :: TrackedItem where
  "timeSignatureTarget = [(makeDelta (DeltaDescription ''changed'' None) timeSignaturesChanged, timeSignatureData)]"

definition twoEventDeltasState :: TrackedItem where
  "twoEventDeltasState =
     [(makeDelta headStateDelta eventsAdded, specExampleState),
      (makeDelta headStateDelta eventsChanged, specExampleChanges)]"

definition oneEventDeltaTarget :: TrackedItem where
  "oneEventDeltaTarget = [(makeDelta headStateDelta eventsAdded, earlyChanges)]"

definition oneEventDeltaState :: TrackedItem where
  "oneEventDeltaState = [(makeDelta headStateDelta eventsAdded, specExampleState)]"

text \<open>
  A second stand-in for the clip mergers, which keeps the children of its base and appends
  those of the changes, two clips, and targets with one and with two deltas of the pattern
  family.
\<close>

definition appendClips :: "SerializedData \<Rightarrow> SerializedData \<Rightarrow> SerializedData" where
  "appendClips state changes = Tree clipsAdded [] (getChildren state @ getChildren changes)"

definition appendingHelpers :: PatternDiffHelpers where
  "appendingHelpers = \<lparr>mergeClipsAdded = appendClips, mergeClipsRemoved = appendClips,
                        mergeClipsChanged = appendClips\<rparr>"

definition clipA :: SerializedData where
  "clipA = Tree (OtherIdentifier ''clip'') [(attrId, VarInt 1)] []"

definition clipB :: SerializedData where
  "clipB = Tree (OtherIdentifier ''clip'') [(attrId, VarInt 2)] []"

definition clipsTarget :: TrackedItem where
  "clipsTarget = [(makeDelta (DeltaDescription ''added'' None) clipsAdded, Tree clipsAdded [] [clipA])]"

definition twoClipsTarget :: TrackedItem where
  "twoClipsTarget =
     [(makeDelta (DeltaDescription ''added'' None) clipsAdded, Tree clipsAdded [] [clipA]),
      (makeDelta (DeltaDescription ''moved'' None) trackPath, pathB),
      (makeDelta (DeltaDescription ''changed'' None) clipsChanged, Tree clipsChanged [] [clipB])]"

section \<open>Properties of the event sequences\<close>

lemma deserialize_serialize: "deserialize (serialize e) = e"
  by (simp add: deserialize_def serialize_def)

lemma hasTypeData_serialize: "hasTypeData (serialize e) automationEvent"
  by (simp add: serialize_def)

lemma fold_appendChild:
  "fold (\<lambda>event tree. appendChild tree (serialize event)) xs (Tree t ps cs)
     = Tree t ps (cs @ map serialize xs)"
  by (induction xs arbitrary: cs) simp_all

lemma serializeAutoSequence_eq:
  "serializeAutoSequence xs tag = Tree tag [] (map serialize xs)"
  by (simp add: serializeAutoSequence_def emptyData_def fold_appendChild)

lemma eventsOf_serializeAutoSequence: "eventsOf (serializeAutoSequence xs tag) = xs"
proof -
  have "filter (\<lambda>c. hasTypeData c automationEvent) (map serialize xs) = map serialize xs"
    by (induction xs) (simp_all add: hasTypeData_serialize)
  then show ?thesis
    by (simp add: eventsOf_def childrenWithType_def serializeAutoSequence_eq
        deserialize_serialize comp_def)
qed


lemma findNote_None_iff: "findNote i ns = None \<longleftrightarrow> i \<notin> getId ` set ns"
  by (induction ns) auto

lemma findNote_Some:
  "findNote i ns = Some j \<Longrightarrow> j < length ns \<and> getId (ns ! j) = i"
  by (induction ns arbitrary: j) (auto split: if_splits)

lemma findNote_Some_iff_ex: "(\<exists>j. findNote i ns = Some j) \<longleftrightarrow> i \<in> getId ` set ns"
  using findNote_None_iff [of i ns] by (cases "findNote i ns") auto

lemma fold_add_missing:
  "fold (\<lambda>c r. if findNote (getId c) S = None then r @ [c] else r) C r0
     = r0 @ filter (\<lambda>c. getId c \<notin> getId ` set S) C"
  by (induction C arbitrary: r0) (simp_all add: findNote_None_iff)

lemma mset_addSorted: "mset (addSorted e xs) = add_mset e (mset xs)"
  by (induction xs) simp_all

lemma set_addSorted: "set (addSorted e xs) = insert e (set xs)"
  by (induction xs) auto

lemma sorted_addSorted:
  "sorted (map getBeat xs) \<Longrightarrow> sorted (map getBeat (addSorted e xs))"
  by (induction xs) (auto simp: set_addSorted)

lemma fold_addSorted_mset:
  "mset (fold (\<lambda>e notes. addSorted (f e) notes) cs acc) = mset (map f cs) + mset acc"
  by (induction cs arbitrary: acc) (simp_all add: mset_addSorted)

lemma fold_addSorted_sorted:
  "sorted (map getBeat acc) \<Longrightarrow> sorted (map getBeat (fold (\<lambda>e notes. addSorted (f e) notes) cs acc))"
  by (induction cs arbitrary: acc) (simp_all add: sorted_addSorted)

lemma mset_deserializeNotes: "mset (deserializeNotes d) = mset (eventsOf d)"
  by (cases d) (simp_all add: deserializeNotes_def eventsOf_def fold_addSorted_mset childrenWithType_def)

lemma set_deserializeNotes: "set (deserializeNotes d) = set (eventsOf d)"
  using mset_deserializeNotes [of d] by (metis set_mset_mset)

lemma sorted_deserializeNotes: "sorted (map getBeat (deserializeNotes d))"
  by (simp add: deserializeNotes_def fold_addSorted_sorted)

lemma distinct_ids_deserializeNotes:
  "distinct (map getId (deserializeNotes d)) \<longleftrightarrow> distinct (map getId (eventsOf d))"
proof -
  have "mset (map getId (deserializeNotes d)) = mset (map getId (eventsOf d))"
    using mset_deserializeNotes [of d] by (metis mset_map)
  then show ?thesis by (metis distinct_count_atmost_1 set_mset_mset)
qed

lemma mergeAutoEventsAdded_eq:
  "mergeAutoEventsAdded state changes =
     serializeAutoSequence
       (deserializeNotes state @
        filter (\<lambda>c. getId c \<notin> getId ` set (deserializeNotes state)) (deserializeNotes changes))
       eventsAdded"
  by (simp add: mergeAutoEventsAdded_def deserializeAutoTrackChanges_def fold_add_missing)

lemma mergeAutoEventsRemoved_eq:
  "mergeAutoEventsRemoved state changes =
     serializeAutoSequence
       (filter (\<lambda>s. getId s \<notin> getId ` set (deserializeNotes changes)) (deserializeNotes state))
       eventsAdded"
  using fold_add_missing [of "deserializeNotes changes" "deserializeNotes state" "[]"]
  by (simp add: mergeAutoEventsRemoved_def deserializeAutoTrackChanges_def)



lemma changed_invariant:
  assumes d: "distinct (map getId S)" and k: "k \<le> length S"
  shows "fold (changedStep S C) [0..<k] (map StateNote [0..<length S])
     = map StateNote (filter (\<lambda>i. k \<le> i \<or> matchOf S C i = None) [0..<length S])
       @ map (\<lambda>i. ChangesNote (the (matchOf S C i))) (filter (\<lambda>i. matchOf S C i \<noteq> None) [0..<k])"
  using k
proof (induction k)
  case 0
  then show ?case by simp
next
  case (Suc k)
  let ?A = "\<lambda>k. map StateNote (filter (\<lambda>i. k \<le> i \<or> matchOf S C i = None) [0..<length S])"
  let ?B = "\<lambda>k. map (\<lambda>i. ChangesNote (the (matchOf S C i))) (filter (\<lambda>i. matchOf S C i \<noteq> None) [0..<k])"
  have IH: "fold (changedStep S C) [0..<k] (map StateNote [0..<length S]) = ?A k @ ?B k"
    using Suc by simp
  have klt: "k < length S" using Suc.prems by simp
  have step: "fold (changedStep S C) [0..<Suc k] (map StateNote [0..<length S])
      = changedStep S C k (?A k @ ?B k)"
    using IH by simp
  show ?case
  proof (cases "matchOf S C k")
    case None
    have "?A (Suc k) = ?A k"
      by (rule arg_cong [where f = "map StateNote"], rule filter_cong) (use None in \<open>auto simp: Suc_le_eq order_le_less\<close>)
    moreover have "?B (Suc k) = ?B k" using None by simp
    moreover have "changedStep S C k (?A k @ ?B k) = ?A k @ ?B k"
      using None by (simp add: changedStep_def matchOf_def)
    ultimately show ?thesis using step by simp
  next
    case (Some j)
    have j: "j < length C" "getId (C ! j) = getId (S ! k)"
      using findNote_Some [of "getId (S ! k)" C j] Some by (simp_all add: matchOf_def)
    have rem: "removeAllInstancesOf (?A k @ ?B k) (StateNote k) = ?A (Suc k) @ ?B k"
    proof -
      have "filter (\<lambda>x. x \<noteq> StateNote k) (?B k) = ?B k"
        by (simp add: filter_map comp_def)
      moreover have "filter (\<lambda>x. x \<noteq> StateNote k) (?A k) = ?A (Suc k)"
        unfolding filter_map comp_def filter_filter
        by (rule arg_cong [where f = "map StateNote"], rule filter_cong) (use Some in \<open>auto\<close>)
      ultimately show ?thesis by (simp add: removeAllInstancesOf_def)
    qed
    have notin: "ChangesNote j \<notin> set (?A (Suc k) @ ?B k)"
    proof
      assume "ChangesNote j \<in> set (?A (Suc k) @ ?B k)"
      then obtain i where i: "i < k" "matchOf S C i \<noteq> None" "the (matchOf S C i) = j"
        by auto
      then have "findNote (getId (S ! i)) C = Some j" by (auto simp: matchOf_def)
      then have "getId (C ! j) = getId (S ! i)" using findNote_Some by blast
      then have "getId (S ! i) = getId (S ! k)" using j by simp
      then have "map getId S ! i = map getId S ! k" using i klt by simp
      moreover have "i < length (map getId S)" "k < length (map getId S)" using i klt by simp_all
      ultimately have "i = k" using d nth_eq_iff_index_eq by blast
      then show False using i by simp
    qed
    have B: "?B (Suc k) = ?B k @ [ChangesNote j]" using Some by simp
    have "changedStep S C k (?A k @ ?B k)
        = addIfNotAlreadyThere (removeAllInstancesOf (?A k @ ?B k) (StateNote k)) (ChangesNote j)"
      using Some by (simp add: changedStep_def matchOf_def)
    also have "\<dots> = ?A (Suc k) @ ?B k @ [ChangesNote j]"
      unfolding rem using notin by (simp add: addIfNotAlreadyThere_def)
    finally show ?thesis using step B by simp
  qed
qed

lemma map_nth_filter: "map ((!) xs) (filter (\<lambda>i. P (xs ! i)) [0..<length xs]) = filter P xs"
proof -
  have "filter P (map ((!) xs) [0..<length xs]) = map ((!) xs) (filter (\<lambda>i. P (xs ! i)) [0..<length xs])"
    by (simp add: filter_map comp_def)
  then show ?thesis by (simp add: map_nth)
qed

lemma changed_result:
  assumes d: "distinct (map getId S)"
  shows "map (deref S C) (fold (changedStep S C) [0..<length S] (map StateNote [0..<length S]))
     = filter (\<lambda>s. getId s \<notin> getId ` set C) S
       @ map (counterpart C) (filter (\<lambda>s. getId s \<in> getId ` set C) S)"
proof -
  have 1: "map (deref S C) (map StateNote (filter (\<lambda>i. length S \<le> i \<or> matchOf S C i = None) [0..<length S]))
      = filter (\<lambda>s. getId s \<notin> getId ` set C) S"
  proof -
    have "filter (\<lambda>i. length S \<le> i \<or> matchOf S C i = None) [0..<length S]
        = filter (\<lambda>i. getId (S ! i) \<notin> getId ` set C) [0..<length S]"
      by (rule filter_cong) (auto simp: matchOf_def findNote_None_iff)
    then show ?thesis
      using map_nth_filter [of S "\<lambda>s. getId s \<notin> getId ` set C"] by (simp add: comp_def)
  qed
  have 2: "map (deref S C) (map (\<lambda>i. ChangesNote (the (matchOf S C i))) (filter (\<lambda>i. matchOf S C i \<noteq> None) [0..<length S]))
      = map (counterpart C) (filter (\<lambda>s. getId s \<in> getId ` set C) S)"
  proof -
    have "filter (\<lambda>i. matchOf S C i \<noteq> None) [0..<length S]
        = filter (\<lambda>i. getId (S ! i) \<in> getId ` set C) [0..<length S]"
      by (rule filter_cong) (auto simp: matchOf_def findNote_None_iff)
    moreover have "map (counterpart C) (filter (\<lambda>s. getId s \<in> getId ` set C) S)
        = map (counterpart C) (map ((!) S) (filter (\<lambda>i. getId (S ! i) \<in> getId ` set C) [0..<length S]))"
      using map_nth_filter [of S "\<lambda>s. getId s \<in> getId ` set C"] by simp
    ultimately show ?thesis by (simp add: comp_def counterpart_def matchOf_def)
  qed
  show ?thesis
    using changed_invariant [OF d, of "length S" C] 1 2 by simp
qed


lemma fold_diffStateStep:
  "fold (diffStateStep C) S acc =
     (fst acc @ filter (\<lambda>s. getId s \<notin> getId ` set C) S,
      snd acc @ map (counterpart C)
        (filter (\<lambda>s. getId s \<in> getId ` set C \<and> eventHasChanged s (counterpart C s)) S))"
proof (induction S arbitrary: acc)
  case Nil
  then show ?case by simp
next
  case (Cons s S)
  show ?case
  proof (cases "findNote (getId s) C")
    case None
    then have "getId s \<notin> getId ` set C" by (simp add: findNote_None_iff)
    then show ?thesis using None Cons by (simp add: diffStateStep_def)
  next
    case (Some j)
    then have "getId s \<in> getId ` set C" using findNote_None_iff [of "getId s" C] by auto
    then show ?thesis using Some Cons by (simp add: diffStateStep_def counterpart_def)
  qed
qed

lemma removedEvents_eq:
  "removedEvents S C = filter (\<lambda>s. getId s \<notin> getId ` set C) S"
  by (simp add: removedEvents_def fold_diffStateStep)

lemma changedEvents_eq:
  "changedEvents S C = map (counterpart C)
        (filter (\<lambda>s. getId s \<in> getId ` set C \<and> eventHasChanged s (counterpart C s)) S)"
  by (simp add: changedEvents_def fold_diffStateStep)

lemma addedEvents_eq:
  "addedEvents S C = filter (\<lambda>c. getId c \<notin> getId ` set S) C"
  using fold_add_missing [of S C "[]"] by (simp add: addedEvents_def)

lemma counterpart_in:
  "getId s \<in> getId ` set C \<Longrightarrow> counterpart C s \<in> set C \<and> getId (counterpart C s) = getId s"
proof -
  assume "getId s \<in> getId ` set C"
  then obtain j where "findNote (getId s) C = Some j"
    using findNote_None_iff [of "getId s" C] by (cases "findNote (getId s) C") auto
  then show ?thesis using findNote_Some [of "getId s" C j] by (simp add: counterpart_def)
qed

lemma counterpart_unique:
  assumes "distinct (map getId C)" "c \<in> set C" "getId c = getId s"
  shows "counterpart C s = c"
proof -
  have "getId s \<in> getId ` set C" using assms(2,3) by (metis imageI)
  then have "counterpart C s \<in> set C" "getId (counterpart C s) = getId c"
    using counterpart_in assms by simp_all
  then show ?thesis using assms(1,2) by (meson distinct_map inj_onD)
qed

lemma set_changedEvents:
  assumes "distinct (map getId C)"
  shows "set (changedEvents S C) =
     {c \<in> set C. \<exists>s \<in> set S. getId s = getId c \<and> eventHasChanged s c}"
proof (intro set_eqI iffI)
  fix c assume "c \<in> set (changedEvents S C)"
  then obtain s where s: "s \<in> set S" "getId s \<in> getId ` set C"
      "eventHasChanged s (counterpart C s)" "c = counterpart C s"
    by (auto simp: changedEvents_eq)
  then show "c \<in> {c \<in> set C. \<exists>s \<in> set S. getId s = getId c \<and> eventHasChanged s c}"
    using counterpart_in [of s C] by auto
next
  fix c assume "c \<in> {c \<in> set C. \<exists>s \<in> set S. getId s = getId c \<and> eventHasChanged s c}"
  then obtain s where s: "c \<in> set C" "s \<in> set S" "getId s = getId c" "eventHasChanged s c"
    by auto
  then have "counterpart C s = c" using counterpart_unique [OF assms, of c s] by simp
  moreover have "getId s \<in> getId ` set C" using s by (metis imageI)
  ultimately show "c \<in> set (changedEvents S C)"
    using s by (force simp: changedEvents_eq)
qed

lemma mergeAutoEventsChanged_eq:
  assumes "distinct (map getId (deserializeNotes state))"
  shows "mergeAutoEventsChanged state changes =
     serializeAutoSequence
       (filter (\<lambda>s. getId s \<notin> getId ` set (deserializeNotes changes)) (deserializeNotes state)
        @ map (counterpart (deserializeNotes changes))
            (filter (\<lambda>s. getId s \<in> getId ` set (deserializeNotes changes)) (deserializeNotes state)))
       eventsAdded"
  using changed_result [OF assms, of "deserializeNotes changes"]
  by (simp add: mergeAutoEventsChanged_def deserializeAutoTrackChanges_def)

lemma mset_replacements:
  assumes dS: "distinct (map getId S)" and dC: "distinct (map getId C)"
  shows "mset (map (counterpart C) (filter (\<lambda>s. getId s \<in> getId ` set C) S))
       = mset (filter (\<lambda>c. getId c \<in> getId ` set S) C)"
proof -
  let ?xs = "map (counterpart C) (filter (\<lambda>s. getId s \<in> getId ` set C) S)"
  let ?ys = "filter (\<lambda>c. getId c \<in> getId ` set S) C"
  have ids: "map getId ?xs = map getId (filter (\<lambda>s. getId s \<in> getId ` set C) S)"
    by (simp add: counterpart_in)
  have "distinct (map getId ?xs)"
    unfolding ids using dS by (simp add: distinct_map_filter)
  then have 1: "distinct ?xs" by (simp only: distinct_map)
  have "distinct C" using dC by (simp only: distinct_map)
  then have 2: "distinct ?ys" by simp
  have 3: "set ?xs = set ?ys"
  proof (intro set_eqI iffI)
    fix x assume "x \<in> set ?xs"
    then obtain s where s: "s \<in> set S" "getId s \<in> getId ` set C" "x = counterpart C s" by auto
    then have "x \<in> set C" "getId x = getId s" using counterpart_in [of s C] by simp_all
    moreover from this s(1) have "getId x \<in> getId ` set S" by (metis imageI)
    ultimately show "x \<in> set ?ys" by simp
  next
    fix y assume "y \<in> set ?ys"
    then obtain s where s: "y \<in> set C" "s \<in> set S" "getId y = getId s" by auto
    then have "counterpart C s = y" using counterpart_unique [OF dC, of y s] by simp
    moreover have "getId s \<in> getId ` set C" using s by (metis imageI)
    ultimately show "y \<in> set ?xs" using s by force
  qed
  show ?thesis using 1 2 3 by (simp only: set_eq_iff_mset_eq_distinct)
qed

lemmas example_defs = specExampleState_def specExampleChanges_def ev_def

lemmas payload_simps = eventsOf_def childrenWithType_def deserializeNotes_def
  deserializeAutoTrackChanges_def serialize_def deserialize_def serializeAutoSequence_eq

lemma eventsOf_specExampleState: "eventsOf specExampleState = [ev 1 0, ev 2 1]"
  by (simp add: example_defs payload_simps)

lemma eventsOf_specExampleChanges: "eventsOf specExampleChanges = [ev 2 2, ev 3 3]"
  by (simp add: example_defs payload_simps)

lemma deserializeNotes_specExampleState: "deserializeNotes specExampleState = [ev 1 0, ev 2 1]"
  by (simp add: example_defs payload_simps)

lemma deserializeNotes_specExampleChanges: "deserializeNotes specExampleChanges = [ev 2 2, ev 3 3]"
  by (simp add: example_defs payload_simps)

lemma ids_deserializeNotes: "getId ` set (deserializeNotes d) = getId ` set (eventsOf d)"
  by (simp add: set_deserializeNotes)

section \<open>The added-merge is the union keyed by id\<close>

text \<open>
  Claim C1. For two event sequences with unique ids, \<^verbatim>\<open>mergeAutoEventsAdded\<close> returns all
  of the state's records followed by every changes record whose id does not occur in the
  state: the payload is the serialization of exactly that list, as a multiset its events
  are the state's events plus the new changes events, a record of the result whose id
  occurs in the state is the state's record, the ids of the result are unique, and the
  payload is one tree tagged \<open>eventsAdded\<close>.
\<close>

theorem mergeAutoEventsAdded_union:
  assumes "distinct (map getId (eventsOf state))"
    and "distinct (map getId (eventsOf changes))"
  shows "mergeAutoEventsAdded state changes =
           serializeAutoSequence
             (deserializeNotes state @
              filter (\<lambda>c. getId c \<notin> getId ` set (eventsOf state)) (deserializeNotes changes))
             eventsAdded
       \<and> mset (eventsOf (mergeAutoEventsAdded state changes)) =
           mset (eventsOf state) +
           mset (filter (\<lambda>c. getId c \<notin> getId ` set (eventsOf state)) (eventsOf changes))
       \<and> (\<forall>e \<in> set (eventsOf (mergeAutoEventsAdded state changes)).
             getId e \<in> getId ` set (eventsOf state) \<longrightarrow> e \<in> set (eventsOf state))
       \<and> distinct (map getId (eventsOf (mergeAutoEventsAdded state changes)))
       \<and> hasTypeData (mergeAutoEventsAdded state changes) eventsAdded"
proof -
  let ?S = "deserializeNotes state" and ?C = "deserializeNotes changes"
  let ?new = "filter (\<lambda>c. getId c \<notin> getId ` set (eventsOf state)) ?C"
  have eq: "mergeAutoEventsAdded state changes = serializeAutoSequence (?S @ ?new) eventsAdded"
    by (simp add: mergeAutoEventsAdded_eq ids_deserializeNotes)
  then have ev: "eventsOf (mergeAutoEventsAdded state changes) = ?S @ ?new"
    by (simp add: eventsOf_serializeAutoSequence)
  have m: "mset (?S @ ?new) = mset (eventsOf state) +
           mset (filter (\<lambda>c. getId c \<notin> getId ` set (eventsOf state)) (eventsOf changes))"
    by (simp add: mset_deserializeNotes)
  have keep: "\<forall>e \<in> set (?S @ ?new). getId e \<in> getId ` set (eventsOf state) \<longrightarrow> e \<in> set (eventsOf state)"
    by (auto simp: set_deserializeNotes)
  have dS: "distinct (map getId ?S)" and dC: "distinct (map getId ?C)"
    using assms by (simp_all add: distinct_ids_deserializeNotes)
  have d: "distinct (map getId (?S @ ?new))"
    using dS dC by (auto simp: distinct_map_filter set_deserializeNotes; metis imageI)
  have t: "hasTypeData (serializeAutoSequence (?S @ ?new) eventsAdded) eventsAdded"
    by (simp add: serializeAutoSequence_eq)
  show ?thesis
    unfolding ev using eq m keep d t by (intro conjI) (simp_all only:)
qed

theorem mergeAutoEventsAdded_union_witness:
  "distinct (map getId (eventsOf specExampleState))
   \<and> distinct (map getId (eventsOf specExampleChanges))
   \<and> mergeAutoEventsAdded specExampleState specExampleChanges =
        serializeAutoSequence [ev 1 0, ev 2 1, ev 3 3] eventsAdded"
proof -
  have h1: "distinct (map getId (eventsOf specExampleState))"
    by (simp add: eventsOf_specExampleState ev_def)
  have h2: "distinct (map getId (eventsOf specExampleChanges))"
    by (simp add: eventsOf_specExampleChanges ev_def)
  show ?thesis
    using h1 h2 mergeAutoEventsAdded_union [OF h1 h2]
    by (simp add: eventsOf_specExampleState deserializeNotes_specExampleState
        deserializeNotes_specExampleChanges ev_def)
qed

section \<open>The changed-merge replaces by id\<close>

text \<open>
  Claim C2. For two event sequences with unique ids, \<^verbatim>\<open>mergeAutoEventsChanged\<close> returns the
  state's records with every record whose id also occurs in the changes replaced by the
  changes record of that id: as a multiset the result is the state records without a
  counterpart plus the changes records with one; the payload lists the kept state records
  first and the replacements behind them; a changes record whose id occurs nowhere in the
  state leaves no record of its id in the result; the ids stay unique and the payload is
  tagged \<open>eventsAdded\<close>. The function is total: no case raises an error.
\<close>

theorem mergeAutoEventsChanged_replaces:
  assumes "distinct (map getId (eventsOf state))"
    and "distinct (map getId (eventsOf changes))"
  shows "mset (eventsOf (mergeAutoEventsChanged state changes)) =
           mset (filter (\<lambda>s. getId s \<notin> getId ` set (eventsOf changes)) (eventsOf state)) +
           mset (filter (\<lambda>c. getId c \<in> getId ` set (eventsOf state)) (eventsOf changes))
       \<and> eventsOf (mergeAutoEventsChanged state changes) =
           filter (\<lambda>s. getId s \<notin> getId ` set (eventsOf changes)) (deserializeNotes state) @
           map (counterpart (deserializeNotes changes))
             (filter (\<lambda>s. getId s \<in> getId ` set (eventsOf changes)) (deserializeNotes state))
       \<and> (\<forall>c \<in> set (eventsOf changes). getId c \<notin> getId ` set (eventsOf state) \<longrightarrow>
             getId c \<notin> getId ` set (eventsOf (mergeAutoEventsChanged state changes)))
       \<and> distinct (map getId (eventsOf (mergeAutoEventsChanged state changes)))
       \<and> hasTypeData (mergeAutoEventsChanged state changes) eventsAdded"
proof -
  let ?S = "deserializeNotes state" and ?C = "deserializeNotes changes"
  let ?keep = "filter (\<lambda>s. getId s \<notin> getId ` set (eventsOf changes)) ?S"
  let ?hit = "filter (\<lambda>s. getId s \<in> getId ` set (eventsOf changes)) ?S"
  let ?R = "mergeAutoEventsChanged state changes"
  have dS: "distinct (map getId ?S)" and dC: "distinct (map getId ?C)"
    using assms by (simp_all add: distinct_ids_deserializeNotes)
  have eq: "?R = serializeAutoSequence (?keep @ map (counterpart ?C) ?hit) eventsAdded"
    using mergeAutoEventsChanged_eq [OF dS, of changes] by (simp add: ids_deserializeNotes)
  then have ev: "eventsOf ?R = ?keep @ map (counterpart ?C) ?hit"
    by (simp add: eventsOf_serializeAutoSequence)
  have t: "hasTypeData ?R eventsAdded"
    unfolding eq by (simp add: serializeAutoSequence_eq)
  have "mset (map (counterpart ?C) ?hit) = mset (filter (\<lambda>c. getId c \<in> getId ` set ?S) ?C)"
    using mset_replacements [OF dS dC] by (simp add: ids_deserializeNotes)
  also have "\<dots> = mset (filter (\<lambda>c. getId c \<in> getId ` set (eventsOf state)) (eventsOf changes))"
    by (simp add: mset_deserializeNotes ids_deserializeNotes)
  finally have hit: "mset (map (counterpart ?C) ?hit) =
      mset (filter (\<lambda>c. getId c \<in> getId ` set (eventsOf state)) (eventsOf changes))" .
  have keep: "mset ?keep = mset (filter (\<lambda>s. getId s \<notin> getId ` set (eventsOf changes)) (eventsOf state))"
    by (simp add: mset_deserializeNotes)
  have m: "mset (eventsOf ?R) =
           mset (filter (\<lambda>s. getId s \<notin> getId ` set (eventsOf changes)) (eventsOf state)) +
           mset (filter (\<lambda>c. getId c \<in> getId ` set (eventsOf state)) (eventsOf changes))"
    unfolding ev mset_append hit keep ..
  have idsR: "map getId (eventsOf ?R) = map getId ?keep @ map getId ?hit"
    unfolding ev by (simp add: counterpart_in ids_deserializeNotes)
  have d: "distinct (map getId (eventsOf ?R))"
    unfolding idsR using dS by (auto simp: distinct_map_filter)
  have sub: "set (map getId (eventsOf ?R)) \<subseteq> getId ` set (eventsOf state)"
    unfolding idsR by (auto simp: set_deserializeNotes)
  have ign: "\<forall>c \<in> set (eventsOf changes). getId c \<notin> getId ` set (eventsOf state) \<longrightarrow>
             getId c \<notin> getId ` set (eventsOf ?R)"
    using sub by auto
  show ?thesis
    using m ev ign d t by (intro conjI) (simp_all only:)
qed

theorem mergeAutoEventsChanged_replaces_witness:
  "distinct (map getId (eventsOf specExampleState))
   \<and> distinct (map getId (eventsOf specExampleChanges))
   \<and> eventsOf (mergeAutoEventsChanged specExampleState specExampleChanges) = [ev 1 0, ev 2 2]"
proof -
  have h1: "distinct (map getId (eventsOf specExampleState))"
    by (simp add: eventsOf_specExampleState ev_def)
  have h2: "distinct (map getId (eventsOf specExampleChanges))"
    by (simp add: eventsOf_specExampleChanges ev_def)
  have "eventsOf (mergeAutoEventsChanged specExampleState specExampleChanges) =
           filter (\<lambda>s. getId s \<notin> getId ` set (eventsOf specExampleChanges)) (deserializeNotes specExampleState) @
           map (counterpart (deserializeNotes specExampleChanges))
             (filter (\<lambda>s. getId s \<in> getId ` set (eventsOf specExampleChanges)) (deserializeNotes specExampleState))"
    using mergeAutoEventsChanged_replaces [OF h1 h2] by (simp only:)
  also have "\<dots> = [ev 1 0, ev 2 2]"
    by (simp add: eventsOf_specExampleChanges deserializeNotes_specExampleState
        deserializeNotes_specExampleChanges counterpart_def ev_def)
  finally show ?thesis using h1 h2 by (simp only:)
qed

lemma ev_simps:
  "getId (ev i b) = i" "getBeat (ev i b) = b" "getCurvature (ev i b) = 0"
  "getControllerValue (ev i b) = 0"
  by (simp_all add: ev_def)

lemma deserializeNotes_serializeAutoSequence:
  "deserializeNotes (serializeAutoSequence xs tag) = fold addSorted xs []"
proof -
  have 1: "filter (\<lambda>c. hasTypeData c automationEvent) (map serialize xs) = map serialize xs"
    by (induction xs) (simp_all add: hasTypeData_serialize)
  have 2: "fold (\<lambda>e notes. addSorted (deserialize e) notes) (map serialize xs) acc = fold addSorted xs acc" for acc
    by (induction xs arbitrary: acc) (simp_all add: deserialize_serialize)
  show ?thesis
    by (simp add: deserializeNotes_def serializeAutoSequence_eq childrenWithType_def 1 2)
qed

section \<open>The collection diff\<close>

text \<open>
  Claim C3. For two event sequences with unique ids, \<^verbatim>\<open>createAutoEventsDiffs\<close> partitions
  the records: the removed group is the state records with no changes record of the same
  id, the changed group is the changes records whose state record of the same id differs
  in beat, curvature or controller value, the added group is the changes records with no
  state record of the same id; and the result holds exactly one delta per non-empty group,
  in the order added, removed, changed, tagged \<open>eventsAdded\<close>, \<open>eventsRemoved\<close>,
  \<open>eventsChanged\<close>, each with the description and the size of its group. The witness is
  the example of the specification.
\<close>

theorem createAutoEventsDiffs_partition:
  assumes "distinct (map getId (eventsOf state))"
    and "distinct (map getId (eventsOf changes))"
  shows "removedEvents (deserializeNotes state) (deserializeNotes changes) =
           filter (\<lambda>s. \<forall>c \<in> set (eventsOf changes). getId c \<noteq> getId s) (deserializeNotes state)
       \<and> set (changedEvents (deserializeNotes state) (deserializeNotes changes)) =
           {c \<in> set (eventsOf changes). \<exists>s \<in> set (eventsOf state). getId s = getId c \<and>
              (getBeat s \<noteq> getBeat c \<or> getCurvature s \<noteq> getCurvature c \<or>
               getControllerValue s \<noteq> getControllerValue c)}
       \<and> addedEvents (deserializeNotes state) (deserializeNotes changes) =
           filter (\<lambda>c. \<forall>s \<in> set (eventsOf state). getId s \<noteq> getId c) (deserializeNotes changes)
       \<and> createAutoEventsDiffs state changes =
           (if addedEvents (deserializeNotes state) (deserializeNotes changes) = [] then []
            else [\<lparr>delta = \<lparr>getDescription = DeltaDescription ''added {x} events''
                       (Some (int (length (addedEvents (deserializeNotes state) (deserializeNotes changes))))),
                     getType = eventsAdded\<rparr>,
                   deltaData = serializeAutoSequence
                     (addedEvents (deserializeNotes state) (deserializeNotes changes)) eventsAdded\<rparr>]) @
           (if removedEvents (deserializeNotes state) (deserializeNotes changes) = [] then []
            else [\<lparr>delta = \<lparr>getDescription = DeltaDescription ''removed {x} events''
                       (Some (int (length (removedEvents (deserializeNotes state) (deserializeNotes changes))))),
                     getType = eventsRemoved\<rparr>,
                   deltaData = serializeAutoSequence
                     (removedEvents (deserializeNotes state) (deserializeNotes changes)) eventsRemoved\<rparr>]) @
           (if changedEvents (deserializeNotes state) (deserializeNotes changes) = [] then []
            else [\<lparr>delta = \<lparr>getDescription = DeltaDescription ''changed {x} events''
                       (Some (int (length (changedEvents (deserializeNotes state) (deserializeNotes changes))))),
                     getType = eventsChanged\<rparr>,
                   deltaData = serializeAutoSequence
                     (changedEvents (deserializeNotes state) (deserializeNotes changes)) eventsChanged\<rparr>])"
proof -
  let ?S = "deserializeNotes state" and ?C = "deserializeNotes changes"
  have dC: "distinct (map getId ?C)"
    using assms by (simp add: distinct_ids_deserializeNotes)
  have P: "\<And>xs (y::AutomationEvent). (getId y \<notin> getId ` set xs) = (\<forall>x \<in> set xs. getId x \<noteq> getId y)"
    by (auto simp: image_iff)
  have r: "removedEvents ?S ?C = filter (\<lambda>s. \<forall>c \<in> set (eventsOf changes). getId c \<noteq> getId s) ?S"
    unfolding removedEvents_eq ids_deserializeNotes P ..
  have a: "addedEvents ?S ?C = filter (\<lambda>c. \<forall>s \<in> set (eventsOf state). getId s \<noteq> getId c) ?C"
    unfolding addedEvents_eq ids_deserializeNotes P ..
  have c: "set (changedEvents ?S ?C) =
           {c \<in> set (eventsOf changes). \<exists>s \<in> set (eventsOf state). getId s = getId c \<and>
              (getBeat s \<noteq> getBeat c \<or> getCurvature s \<noteq> getCurvature c \<or>
               getControllerValue s \<noteq> getControllerValue c)}"
    using set_changedEvents [OF dC, of ?S]
    by (simp only: set_deserializeNotes eventHasChanged_def)
  have d: "createAutoEventsDiffs state changes =
           (if addedEvents ?S ?C = [] then []
            else [\<lparr>delta = \<lparr>getDescription = DeltaDescription ''added {x} events''
                       (Some (int (length (addedEvents ?S ?C)))), getType = eventsAdded\<rparr>,
                   deltaData = serializeAutoSequence (addedEvents ?S ?C) eventsAdded\<rparr>]) @
           (if removedEvents ?S ?C = [] then []
            else [\<lparr>delta = \<lparr>getDescription = DeltaDescription ''removed {x} events''
                       (Some (int (length (removedEvents ?S ?C)))), getType = eventsRemoved\<rparr>,
                   deltaData = serializeAutoSequence (removedEvents ?S ?C) eventsRemoved\<rparr>]) @
           (if changedEvents ?S ?C = [] then []
            else [\<lparr>delta = \<lparr>getDescription = DeltaDescription ''changed {x} events''
                       (Some (int (length (changedEvents ?S ?C)))), getType = eventsChanged\<rparr>,
                   deltaData = serializeAutoSequence (changedEvents ?S ?C) eventsChanged\<rparr>])"
    by (simp add: createAutoEventsDiffs_def deserializeAutoTrackChanges_def Let_def
        serializeAutoTrackChanges_def makeDelta_def)
  show ?thesis
    using r c a d by (intro conjI) (simp_all only:)
qed

theorem createAutoEventsDiffs_partition_witness:
  "distinct (map getId (eventsOf specExampleState))
   \<and> distinct (map getId (eventsOf specExampleChanges))
   \<and> createAutoEventsDiffs specExampleState specExampleChanges =
       [\<lparr>delta = \<lparr>getDescription = DeltaDescription ''added {x} events'' (Some 1), getType = eventsAdded\<rparr>,
         deltaData = serializeAutoSequence [ev 3 3] eventsAdded\<rparr>,
        \<lparr>delta = \<lparr>getDescription = DeltaDescription ''removed {x} events'' (Some 1), getType = eventsRemoved\<rparr>,
         deltaData = serializeAutoSequence [ev 1 0] eventsRemoved\<rparr>,
        \<lparr>delta = \<lparr>getDescription = DeltaDescription ''changed {x} events'' (Some 1), getType = eventsChanged\<rparr>,
         deltaData = serializeAutoSequence [ev 2 2] eventsChanged\<rparr>]"
proof -
  have h1: "distinct (map getId (eventsOf specExampleState))"
    by (simp add: eventsOf_specExampleState ev_def)
  have h2: "distinct (map getId (eventsOf specExampleChanges))"
    by (simp add: eventsOf_specExampleChanges ev_def)
  have a: "addedEvents (deserializeNotes specExampleState) (deserializeNotes specExampleChanges) = [ev 3 3]"
    by (simp add: addedEvents_def deserializeNotes_specExampleState
        deserializeNotes_specExampleChanges ev_def)
  have r: "removedEvents (deserializeNotes specExampleState) (deserializeNotes specExampleChanges) = [ev 1 0]"
    by (simp add: removedEvents_def diffStateStep_def eventHasChanged_def
        deserializeNotes_specExampleState deserializeNotes_specExampleChanges ev_def)
  have c: "changedEvents (deserializeNotes specExampleState) (deserializeNotes specExampleChanges) = [ev 2 2]"
    by (simp add: changedEvents_def diffStateStep_def eventHasChanged_def
        deserializeNotes_specExampleState deserializeNotes_specExampleChanges ev_def)
  have "createAutoEventsDiffs specExampleState specExampleChanges =
       [\<lparr>delta = \<lparr>getDescription = DeltaDescription ''added {x} events'' (Some 1), getType = eventsAdded\<rparr>,
         deltaData = serializeAutoSequence [ev 3 3] eventsAdded\<rparr>,
        \<lparr>delta = \<lparr>getDescription = DeltaDescription ''removed {x} events'' (Some 1), getType = eventsRemoved\<rparr>,
         deltaData = serializeAutoSequence [ev 1 0] eventsRemoved\<rparr>,
        \<lparr>delta = \<lparr>getDescription = DeltaDescription ''changed {x} events'' (Some 1), getType = eventsChanged\<rparr>,
         deltaData = serializeAutoSequence [ev 2 2] eventsChanged\<rparr>]"
    using createAutoEventsDiffs_partition [OF h1 h2] unfolding a r c by simp
  then show ?thesis using h1 h2 by (simp only:)
qed

section \<open>Merging the same changes twice\<close>

text \<open>
  Claim C9, as stated: merging the changes a second time gives the same payload. That
  fails: the first merge appends the new records behind the state's, the second one reads
  that payload back sorted by beat.
\<close>

theorem mergeAutoEventsAdded_twice_counterexample:
  "mergeAutoEventsAdded (mergeAutoEventsAdded lateState earlyChanges) earlyChanges
     \<noteq> mergeAutoEventsAdded lateState earlyChanges"
proof -
  have S: "deserializeNotes lateState = [ev 1 5]"
    unfolding lateState_def serializeAutoSequence_eq [of "[ev 1 5]" eventsAdded, simplified, symmetric]
    by (simp add: deserializeNotes_serializeAutoSequence)
  have C: "deserializeNotes earlyChanges = [ev 2 1]"
    unfolding earlyChanges_def serializeAutoSequence_eq [of "[ev 2 1]" eventsAdded, simplified, symmetric]
    by (simp add: deserializeNotes_serializeAutoSequence)
  have 1: "mergeAutoEventsAdded lateState earlyChanges = serializeAutoSequence [ev 1 5, ev 2 1] eventsAdded"
    by (simp add: mergeAutoEventsAdded_eq S C ev_simps)
  have S2: "deserializeNotes (serializeAutoSequence [ev 1 5, ev 2 1] eventsAdded) = [ev 2 1, ev 1 5]"
    by (simp add: deserializeNotes_serializeAutoSequence ev_simps)
  have 2: "mergeAutoEventsAdded (serializeAutoSequence [ev 1 5, ev 2 1] eventsAdded) earlyChanges
      = serializeAutoSequence [ev 2 1, ev 1 5] eventsAdded"
    by (simp add: mergeAutoEventsAdded_eq S2 C ev_simps)
  have "serializeAutoSequence [ev 2 1, ev 1 5] eventsAdded \<noteq> serializeAutoSequence [ev 1 5, ev 2 1] eventsAdded"
    by (simp add: serializeAutoSequence_eq serialize_def ev_def)
  then show ?thesis
    by (simp only: 1 2 not_False_eq_True)
qed

text \<open>
  Claim C9, amended. Merging the changes a second time adds no record: the second result
  holds the same records as the first (the same multiset of events), listed in the order
  in which the first result is read back, sorted by beat, in one payload tagged
  \<open>eventsAdded\<close>.
\<close>

theorem mergeAutoEventsAdded_twice_same_records:
  "mset (eventsOf (mergeAutoEventsAdded (mergeAutoEventsAdded state changes) changes)) =
     mset (eventsOf (mergeAutoEventsAdded state changes))
   \<and> eventsOf (mergeAutoEventsAdded (mergeAutoEventsAdded state changes) changes) =
     deserializeNotes (mergeAutoEventsAdded state changes)
   \<and> hasTypeData (mergeAutoEventsAdded (mergeAutoEventsAdded state changes) changes) eventsAdded"
proof -
  let ?R = "mergeAutoEventsAdded state changes"
  let ?C = "deserializeNotes changes"
  have ev: "eventsOf ?R = deserializeNotes state @
        filter (\<lambda>c. getId c \<notin> getId ` set (deserializeNotes state)) ?C"
    by (simp add: mergeAutoEventsAdded_eq eventsOf_serializeAutoSequence)
  have "\<forall>c \<in> set ?C. getId c \<in> getId ` set (eventsOf ?R)"
    unfolding ev by auto
  then have "filter (\<lambda>c. getId c \<notin> getId ` set (deserializeNotes ?R)) ?C = []"
    by (simp add: ids_deserializeNotes filter_empty_conv)
  then have eq: "mergeAutoEventsAdded ?R changes = serializeAutoSequence (deserializeNotes ?R) eventsAdded"
    by (simp add: mergeAutoEventsAdded_eq [of ?R])
  have 1: "eventsOf (mergeAutoEventsAdded ?R changes) = deserializeNotes ?R"
    unfolding eq by (rule eventsOf_serializeAutoSequence)
  have 2: "mset (eventsOf (mergeAutoEventsAdded ?R changes)) = mset (eventsOf ?R)"
    unfolding 1 by (rule mset_deserializeNotes)
  have 3: "hasTypeData (mergeAutoEventsAdded ?R changes) eventsAdded"
    unfolding eq by (simp add: serializeAutoSequence_eq)
  show ?thesis using 1 2 3 by (intro conjI) (simp_all only:)
qed

theorem mergeAutoEventsAdded_twice_same_records_witness:
  "eventsOf (mergeAutoEventsAdded (mergeAutoEventsAdded lateState earlyChanges) earlyChanges)
     = [ev 2 1, ev 1 5]
   \<and> eventsOf (mergeAutoEventsAdded lateState earlyChanges) = [ev 1 5, ev 2 1]"
proof -
  have S: "deserializeNotes lateState = [ev 1 5]"
    unfolding lateState_def serializeAutoSequence_eq [of "[ev 1 5]" eventsAdded, simplified, symmetric]
    by (simp add: deserializeNotes_serializeAutoSequence)
  have C: "deserializeNotes earlyChanges = [ev 2 1]"
    unfolding earlyChanges_def serializeAutoSequence_eq [of "[ev 2 1]" eventsAdded, simplified, symmetric]
    by (simp add: deserializeNotes_serializeAutoSequence)
  have 1: "mergeAutoEventsAdded lateState earlyChanges = serializeAutoSequence [ev 1 5, ev 2 1] eventsAdded"
    by (simp add: mergeAutoEventsAdded_eq S C ev_simps)
  have a: "eventsOf (mergeAutoEventsAdded lateState earlyChanges) = [ev 1 5, ev 2 1]"
    unfolding 1 by (rule eventsOf_serializeAutoSequence)
  have "deserializeNotes (mergeAutoEventsAdded lateState earlyChanges) = [ev 2 1, ev 1 5]"
    unfolding 1 by (simp add: deserializeNotes_serializeAutoSequence ev_simps)
  then have b: "eventsOf (mergeAutoEventsAdded (mergeAutoEventsAdded lateState earlyChanges) earlyChanges)
     = [ev 2 1, ev 1 5]"
    using mergeAutoEventsAdded_twice_same_records [of lateState earlyChanges] by (simp only:)
  show ?thesis using a b by (intro conjI)
qed

lemma sorted_beat_filter:
  "sorted (map getBeat xs) \<Longrightarrow> sorted (map getBeat (filter P xs))"
  by (rule sorted_filter)

lemma createAutoEventsDiffs_cases:
  assumes "dd \<in> set (createAutoEventsDiffs state changes)"
  shows "dd = serializeAutoTrackChanges (addedEvents (deserializeNotes state) (deserializeNotes changes))
               ''added {x} events''
               (int (length (addedEvents (deserializeNotes state) (deserializeNotes changes)))) eventsAdded
       \<or> dd = serializeAutoTrackChanges (removedEvents (deserializeNotes state) (deserializeNotes changes))
               ''removed {x} events''
               (int (length (removedEvents (deserializeNotes state) (deserializeNotes changes)))) eventsRemoved
       \<or> dd = serializeAutoTrackChanges (changedEvents (deserializeNotes state) (deserializeNotes changes))
               ''changed {x} events''
               (int (length (changedEvents (deserializeNotes state) (deserializeNotes changes)))) eventsChanged"
  using assms
  by (auto simp: createAutoEventsDiffs_def deserializeAutoTrackChanges_def Let_def split: if_splits)

section \<open>The order of the events in a payload\<close>

text \<open>
  Claim C8, as stated: every payload produced by the merge and diff functions lists its
  events sorted by beat. That fails for the added-merge and the changed-merge, which append
  changes records behind state records, and for the changed group of the diff, which is
  listed in the order of the state records.
\<close>

theorem event_payload_order_counterexample:
  "\<not> sorted (map getBeat (eventsOf (mergeAutoEventsAdded lateState earlyChanges)))
   \<and> \<not> sorted (map getBeat (eventsOf (mergeAutoEventsChanged crossingState crossingChanges)))
   \<and> \<not> sorted (map getBeat (eventsOf (deltaData (hd (createAutoEventsDiffs crossingState crossingChanges)))))"
proof -
  have S: "deserializeNotes lateState = [ev 1 5]"
    unfolding lateState_def serializeAutoSequence_eq [of "[ev 1 5]" eventsAdded, simplified, symmetric]
    by (simp add: deserializeNotes_serializeAutoSequence)
  have C: "deserializeNotes earlyChanges = [ev 2 1]"
    unfolding earlyChanges_def serializeAutoSequence_eq [of "[ev 2 1]" eventsAdded, simplified, symmetric]
    by (simp add: deserializeNotes_serializeAutoSequence)
  have "eventsOf (mergeAutoEventsAdded lateState earlyChanges) = [ev 1 5, ev 2 1]"
    by (simp add: mergeAutoEventsAdded_eq eventsOf_serializeAutoSequence S C ev_simps)
  then have 1: "\<not> sorted (map getBeat (eventsOf (mergeAutoEventsAdded lateState earlyChanges)))"
    by (simp add: ev_simps)
  have S': "deserializeNotes crossingState = [ev 1 0, ev 2 3]"
    unfolding crossingState_def
      serializeAutoSequence_eq [of "[ev 1 0, ev 2 3]" eventsAdded, simplified, symmetric]
    by (simp add: deserializeNotes_serializeAutoSequence ev_simps)
  have C': "deserializeNotes crossingChanges = [ev 2 4, ev 1 5]"
    unfolding crossingChanges_def
      serializeAutoSequence_eq [of "[ev 1 5, ev 2 4]" eventsChanged, simplified, symmetric]
    by (simp add: deserializeNotes_serializeAutoSequence ev_simps)
  have "distinct (map getId (deserializeNotes crossingState))"
    by (simp add: S' ev_simps)
  then have "eventsOf (mergeAutoEventsChanged crossingState crossingChanges) = [ev 1 5, ev 2 4]"
    by (simp add: mergeAutoEventsChanged_eq eventsOf_serializeAutoSequence S' C' ev_simps
        counterpart_def)
  then have 2: "\<not> sorted (map getBeat (eventsOf (mergeAutoEventsChanged crossingState crossingChanges)))"
    by (simp add: ev_simps)
  have a: "addedEvents [ev 1 0, ev 2 3] [ev 2 4, ev 1 5] = []"
    by (simp add: addedEvents_eq ev_simps)
  have r: "removedEvents [ev 1 0, ev 2 3] [ev 2 4, ev 1 5] = []"
    by (simp add: removedEvents_eq ev_simps)
  have c: "changedEvents [ev 1 0, ev 2 3] [ev 2 4, ev 1 5] = [ev 1 5, ev 2 4]"
    by (simp add: changedEvents_eq ev_simps counterpart_def eventHasChanged_def)
  have "eventsOf (deltaData (hd (createAutoEventsDiffs crossingState crossingChanges))) = [ev 1 5, ev 2 4]"
    by (simp add: createAutoEventsDiffs_def deserializeAutoTrackChanges_def S' C' a r c
        serializeAutoTrackChanges_def eventsOf_serializeAutoSequence)
  then have 3: "\<not> sorted (map getBeat (eventsOf (deltaData (hd (createAutoEventsDiffs crossingState crossingChanges)))))"
    by (simp add: ev_simps)
  show ?thesis using 1 2 3 by (intro conjI)
qed

text \<open>
  Claim C8, amended. Both sequences that \<^verbatim>\<open>deserializeAutoTrackChanges\<close> reads are sorted
  by beat; the payload of the removed-merge and the added and removed groups of the diff
  list their events sorted by beat; the payload of the added-merge is the state records
  sorted by beat followed by the new changes records sorted by beat.
\<close>

theorem event_payload_order:
  "sorted (map getBeat (fst (deserializeAutoTrackChanges state changes)))
   \<and> sorted (map getBeat (snd (deserializeAutoTrackChanges state changes)))
   \<and> sorted (map getBeat (eventsOf (mergeAutoEventsRemoved state changes)))
   \<and> (\<forall>dd \<in> set (createAutoEventsDiffs state changes).
         getType (delta dd) \<noteq> eventsChanged \<longrightarrow> sorted (map getBeat (eventsOf (deltaData dd))))
   \<and> sorted (map getBeat (take (length (deserializeNotes state))
                (eventsOf (mergeAutoEventsAdded state changes))))
   \<and> sorted (map getBeat (drop (length (deserializeNotes state))
                (eventsOf (mergeAutoEventsAdded state changes))))"
proof -
  let ?S = "deserializeNotes state" and ?C = "deserializeNotes changes"
  have 1: "sorted (map getBeat (fst (deserializeAutoTrackChanges state changes)))"
    by (simp add: deserializeAutoTrackChanges_def sorted_deserializeNotes)
  have 2: "sorted (map getBeat (snd (deserializeAutoTrackChanges state changes)))"
    by (simp add: deserializeAutoTrackChanges_def sorted_deserializeNotes)
  have 3: "sorted (map getBeat (eventsOf (mergeAutoEventsRemoved state changes)))"
    by (simp add: mergeAutoEventsRemoved_eq eventsOf_serializeAutoSequence
        sorted_beat_filter sorted_deserializeNotes)
  have 4: "\<forall>dd \<in> set (createAutoEventsDiffs state changes).
         getType (delta dd) \<noteq> eventsChanged \<longrightarrow> sorted (map getBeat (eventsOf (deltaData dd)))"
  proof (intro ballI impI)
    fix dd assume dd: "dd \<in> set (createAutoEventsDiffs state changes)"
      and ty: "getType (delta dd) \<noteq> eventsChanged"
    from createAutoEventsDiffs_cases [OF dd] ty
    have "eventsOf (deltaData dd) = addedEvents ?S ?C \<or> eventsOf (deltaData dd) = removedEvents ?S ?C"
      by (auto simp: serializeAutoTrackChanges_def makeDelta_def eventsOf_serializeAutoSequence)
    then show "sorted (map getBeat (eventsOf (deltaData dd)))"
      by (auto simp: addedEvents_eq removedEvents_eq sorted_beat_filter sorted_deserializeNotes)
  qed
  have ev: "eventsOf (mergeAutoEventsAdded state changes) =
      ?S @ filter (\<lambda>c. getId c \<notin> getId ` set ?S) ?C"
    by (simp add: mergeAutoEventsAdded_eq eventsOf_serializeAutoSequence)
  have 5: "sorted (map getBeat (take (length ?S) (eventsOf (mergeAutoEventsAdded state changes))))"
    unfolding ev by (simp add: sorted_deserializeNotes)
  have 6: "sorted (map getBeat (drop (length ?S) (eventsOf (mergeAutoEventsAdded state changes))))"
    unfolding ev by (simp add: sorted_beat_filter sorted_deserializeNotes)
  show ?thesis using 1 2 3 4 5 6 by (intro conjI)
qed

theorem event_payload_order_witness:
  "getType (delta (hd (createAutoEventsDiffs specExampleState specExampleChanges))) \<noteq> eventsChanged
   \<and> sorted (map getBeat (eventsOf (deltaData (hd (createAutoEventsDiffs specExampleState specExampleChanges)))))
   \<and> sorted (map getBeat (eventsOf (mergeAutoEventsRemoved specExampleState specExampleChanges)))"
proof -
  have a: "addedEvents [ev 1 0, ev 2 1] [ev 2 2, ev 3 3] = [ev 3 3]"
    by (simp add: addedEvents_eq ev_simps)
  have h: "hd (createAutoEventsDiffs specExampleState specExampleChanges) =
      serializeAutoTrackChanges [ev 3 3] ''added {x} events'' 1 eventsAdded"
    by (simp add: createAutoEventsDiffs_def deserializeAutoTrackChanges_def
        deserializeNotes_specExampleState deserializeNotes_specExampleChanges a Let_def)
  have m: "hd (createAutoEventsDiffs specExampleState specExampleChanges)
      \<in> set (createAutoEventsDiffs specExampleState specExampleChanges)"
    by (simp add: createAutoEventsDiffs_def deserializeAutoTrackChanges_def
        deserializeNotes_specExampleState deserializeNotes_specExampleChanges a Let_def)
  have t: "getType (delta (hd (createAutoEventsDiffs specExampleState specExampleChanges))) \<noteq> eventsChanged"
    unfolding h by (simp add: serializeAutoTrackChanges_def makeDelta_def)
  from event_payload_order [of specExampleState specExampleChanges] m t
  show ?thesis by blast
qed

section \<open>The two passes of the merge\<close>

lemma mergeStrict_append:
  "mergeStrict s td tdata d = d @ mergeStrict s td tdata []"
  by (simp add: mergeStrict_def applyDelta_def)

lemma fold_mergeTargetDelta:
  "fold (mergeTargetDelta h sd sdata) ts st =
     \<lparr>deltaFoundInChanges = (deltaFoundInChanges st \<or> (\<exists>td \<in> set ts. deltasMatch sd (fst td))),
      eventsDeltaData = eventsAccumulated sd sdata ts (eventsDeltaData st),
      clipsDeltaData = clipsAccumulated h sd sdata ts (clipsDeltaData st),
      diff = diff st @ concat (map (strictOutput sd sdata) ts)\<rparr>"
proof (induction ts arbitrary: st)
  case Nil
  then show ?case by (simp add: eventsAccumulated_def clipsAccumulated_def)
next
  case (Cons t ts)
  let ?st' = "mergeTargetDelta h sd sdata t st"
  have f: "deltaFoundInChanges ?st' = (deltaFoundInChanges st \<or> deltasMatch sd (fst t))"
    by (auto simp: mergeTargetDelta_def Let_def deltasMatch_def)
  have e: "eventsDeltaData ?st' =
      (if checkIfDeltaIsEventsType sd \<and> checkIfDeltaIsEventsType (fst t)
       then mergeEvents sdata (fst t) (snd t) (eventsDeltaData st) else eventsDeltaData st)"
    by (simp add: mergeTargetDelta_def Let_def)
  have c: "clipsDeltaData ?st' =
      (if checkIfDeltaIsPatternType sd \<and> checkIfDeltaIsPatternType (fst t)
       then mergeClips h sdata (fst t) (snd t) (clipsDeltaData st) else clipsDeltaData st)"
    by (simp add: mergeTargetDelta_def Let_def)
  have d: "diff ?st' = diff st @ strictOutput sd sdata t"
    using mergeStrict_append [of sdata "fst t" "snd t" "diff st"]
    by (simp add: mergeTargetDelta_def Let_def strictOutput_def)
  have "fold (mergeTargetDelta h sd sdata) (t # ts) st = fold (mergeTargetDelta h sd sdata) ts ?st'"
    by simp
  also have "\<dots> = \<lparr>deltaFoundInChanges = (deltaFoundInChanges ?st' \<or> (\<exists>td \<in> set ts. deltasMatch sd (fst td))),
      eventsDeltaData = eventsAccumulated sd sdata ts (eventsDeltaData ?st'),
      clipsDeltaData = clipsAccumulated h sd sdata ts (clipsDeltaData ?st'),
      diff = diff ?st' @ concat (map (strictOutput sd sdata) ts)\<rparr>"
    by (rule Cons.IH)
  also have "\<dots> = \<lparr>deltaFoundInChanges = (deltaFoundInChanges st \<or> (\<exists>td \<in> set (t # ts). deltasMatch sd (fst td))),
      eventsDeltaData = eventsAccumulated sd sdata (t # ts) (eventsDeltaData st),
      clipsDeltaData = clipsAccumulated h sd sdata (t # ts) (clipsDeltaData st),
      diff = diff st @ concat (map (strictOutput sd sdata) (t # ts))\<rparr>"
    unfolding f e c d by (simp add: eventsAccumulated_def clipsAccumulated_def)
  finally show ?case .
qed



lemma mergeStateDelta_eq:
  "mergeStateDelta h target sd d0 = d0 @ emitted h target sd"
  by (simp add: mergeStateDelta_def Let_def fold_mergeTargetDelta applyDelta_def emitted_def)

lemma fold_mergeStateDelta:
  "fold (mergeStateDelta h target) state d0 = d0 @ concat (map (emitted h target) state)"
  by (induction state arbitrary: d0) (simp_all add: mergeStateDelta_eq)

lemma stateHasClips_iff:
  "stateHasClips state \<longleftrightarrow> (\<exists>sd \<in> set state. checkIfDeltaIsPatternType (fst sd))"
proof -
  have "fold (\<lambda>sd b. b \<or> checkIfDeltaIsPatternType (fst sd)) state b0
      \<longleftrightarrow> b0 \<or> (\<exists>sd \<in> set state. checkIfDeltaIsPatternType (fst sd))" for b0
    by (induction state arbitrary: b0) auto
  then show ?thesis by (simp add: stateHasClips_def)
qed

lemma stateHasTrackTimeSignature_iff:
  "stateHasTrackTimeSignature state \<longleftrightarrow> (\<exists>sd \<in> set state. hasType (fst sd) timeSignaturesChanged)"
proof -
  have "fold (\<lambda>sd b. b \<or> hasType (fst sd) timeSignaturesChanged) state b0
      \<longleftrightarrow> b0 \<or> (\<exists>sd \<in> set state. hasType (fst sd) timeSignaturesChanged)" for b0
    by (induction state arbitrary: b0) auto
  then show ?thesis by (simp add: stateHasTrackTimeSignature_def)
qed



lemma resolveTimeSignature_append:
  "resolveTimeSignature target d0 = d0 @ timeSignatureResolved target"
  by (simp add: resolveTimeSignature_def timeSignatureResolved_def Let_def applyDelta_def)

lemma resolveClips_append:
  "resolveClips h target d0 = d0 @ clipsResolved h target"
  by (simp add: resolveClips_def clipsResolved_def Let_def applyDelta_def)

lemma createMergedItem_eq:
  "createMergedItem h state target =
     concat (map (emitted h target) state) @
     (if stateHasTrackTimeSignature state then [] else timeSignatureResolved target) @
     (if stateHasClips state then [] else clipsResolved h target)"
  by (simp add: createMergedItem_def Let_def fold_mergeStateDelta
      resolveTimeSignature_append resolveClips_append)

lemmas family_defs = checkIfDeltaIsEventsType_def checkIfDeltaIsPatternType_def hasType_def

lemma mergeStrict_scalar:
  "scalarType (getType td) \<Longrightarrow>
     mergeStrict s td tdata [] = [\<lparr>delta = makeDelta (getDescription td) (getType td), deltaData = tdata\<rparr>]"
  by (auto simp: mergeStrict_def scalarType_def hasType_def applyDelta_def createCopy_def
      mergePath_def mergeColour_def mergeInstrument_def mergeController_def mergeTimeSignature_def)

lemma mergeStrict_other:
  "\<not> scalarType (getType td) \<Longrightarrow> mergeStrict s td tdata [] = []"
  by (simp add: mergeStrict_def scalarType_def hasType_def)

lemma strictOutput_eq:
  "strictOutput sd sdata td =
     (if getType sd = getType (fst td) \<and> scalarType (getType sd)
      then [\<lparr>delta = makeDelta (getDescription (fst td)) (getType sd), deltaData = snd td\<rparr>] else [])"
  by (simp add: strictOutput_def mergeStrict_scalar mergeStrict_other)

lemma strictOutput_types:
  "dd \<in> set (concat (map (strictOutput sd sdata) target)) \<Longrightarrow>
     getType (delta dd) = getType sd \<and> scalarType (getType sd)"
  by (auto simp: strictOutput_eq makeDelta_def split: if_splits)

lemma eventsAccumulated_valid:
  "isValid (eventsAccumulated sd sdata target e0) \<Longrightarrow>
     isValid e0 \<or> (checkIfDeltaIsEventsType sd \<and> (\<exists>td \<in> set target. checkIfDeltaIsEventsType (fst td)))"
  unfolding eventsAccumulated_def
  by (induction target arbitrary: e0) (auto split: if_splits)

lemma clipsAccumulated_valid:
  "isValid (clipsAccumulated h sd sdata target c0) \<Longrightarrow>
     isValid c0 \<or> (checkIfDeltaIsPatternType sd \<and> (\<exists>td \<in> set target. checkIfDeltaIsPatternType (fst td)))"
  unfolding clipsAccumulated_def
  by (induction target arbitrary: c0) (auto split: if_splits)

lemma scalar_not_family:
  "scalarType (getType d) \<Longrightarrow> \<not> checkIfDeltaIsEventsType d \<and> \<not> checkIfDeltaIsPatternType d"
  by (auto simp: scalarType_def family_defs)

lemma eventsDeltas_strict: "eventsDeltas (concat (map (strictOutput sd sdata) target)) = []"
  unfolding eventsDeltas_def filter_empty_conv
  using strictOutput_types scalar_not_family
  by (metis checkIfDeltaIsEventsType_def hasType_def)

lemma clipsDeltas_strict: "clipsDeltas (concat (map (strictOutput sd sdata) target)) = []"
  unfolding clipsDeltas_def filter_empty_conv
  using strictOutput_types scalar_not_family
  by (metis checkIfDeltaIsPatternType_def hasType_def)

lemma eventsDeltas_emitted:
  "length (eventsDeltas (emitted h target sd)) \<le> (if checkIfDeltaIsEventsType (fst sd) then 1 else 0)"
proof -
  let ?e = "eventsAccumulated (fst sd) (snd sd) target Invalid"
  have v: "isValid ?e \<Longrightarrow> checkIfDeltaIsEventsType (fst sd) \<and> (\<exists>td \<in> set target. deltasMatch (fst sd) (fst td))"
    using eventsAccumulated_valid [of "fst sd" "snd sd" target Invalid]
    by (auto simp: deltasMatch_def)
  have s: "filter (\<lambda>dd. checkIfDeltaIsEventsType (delta dd)) (concat (map (strictOutput (fst sd) (snd sd)) target)) = []"
    using eventsDeltas_strict [of "fst sd" "snd sd" target] by (simp add: eventsDeltas_def)
  show ?thesis
  proof (cases "isValid ?e")
    case True
    then show ?thesis
      using v s by (simp add: emitted_def eventsDeltas_def family_defs makeDelta_def)
  next
    case False
    then show ?thesis
      using s by (simp add: emitted_def eventsDeltas_def family_defs makeDelta_def)
  qed
qed

lemma clipsDeltas_emitted:
  "length (clipsDeltas (emitted h target sd)) \<le> (if checkIfDeltaIsPatternType (fst sd) then 1 else 0)"
proof -
  let ?c = "clipsAccumulated h (fst sd) (snd sd) target Invalid"
  have v: "isValid ?c \<Longrightarrow> checkIfDeltaIsPatternType (fst sd) \<and> (\<exists>td \<in> set target. deltasMatch (fst sd) (fst td))"
    using clipsAccumulated_valid [of h "fst sd" "snd sd" target Invalid]
    by (auto simp: deltasMatch_def)
  have s: "filter (\<lambda>dd. checkIfDeltaIsPatternType (delta dd)) (concat (map (strictOutput (fst sd) (snd sd)) target)) = []"
    using clipsDeltas_strict [of "fst sd" "snd sd" target] by (simp add: clipsDeltas_def)
  show ?thesis
  proof (cases "isValid ?c")
    case True
    then show ?thesis
      using v s by (simp add: emitted_def clipsDeltas_def family_defs makeDelta_def)
  next
    case False
    then show ?thesis
      using s by (simp add: emitted_def clipsDeltas_def family_defs makeDelta_def)
  qed
qed

lemma length_filter_concat_le:
  assumes "\<And>x. x \<in> set xs \<Longrightarrow> length (filter P (f x)) \<le> (if Q x then 1 else 0)"
  shows "length (filter P (concat (map f xs))) \<le> length (filter Q xs)"
  using assms
proof (induction xs)
  case Nil
  then show ?case by simp
next
  case (Cons x xs)
  have "length (filter P (f x)) \<le> (if Q x then 1 else 0)" using Cons.prems by simp
  moreover have "length (filter P (concat (map f xs))) \<le> length (filter Q xs)"
    using Cons by simp
  ultimately show ?case by (simp split: if_splits)
qed

lemma eventsDeltas_main:
  "length (eventsDeltas (concat (map (emitted h target) state)))
     \<le> length (filter (\<lambda>sd. checkIfDeltaIsEventsType (fst sd)) state)"
  unfolding eventsDeltas_def
  by (rule length_filter_concat_le) (use eventsDeltas_emitted in \<open>simp add: eventsDeltas_def\<close>)

lemma clipsDeltas_main:
  "length (clipsDeltas (concat (map (emitted h target) state)))
     \<le> length (filter (\<lambda>sd. checkIfDeltaIsPatternType (fst sd)) state)"
  unfolding clipsDeltas_def
  by (rule length_filter_concat_le) (use clipsDeltas_emitted in \<open>simp add: clipsDeltas_def\<close>)

lemma timeSignatureResolved_eq:
  "timeSignatureResolved target =
     [\<lparr>delta = makeDelta headStateDelta timeSignaturesChanged,
       deltaData = (case filter (\<lambda>td. hasType (fst td) timeSignaturesChanged) target of
                      [] \<Rightarrow> emptyData timeSignaturesChanged
                    | x # xs \<Rightarrow> if isValid (snd (last (x # xs))) then snd (last (x # xs))
                               else emptyData timeSignaturesChanged)\<rparr>]"
proof -
  have f: "fold (\<lambda>td merged. if hasType (fst td) timeSignaturesChanged
                   then mergeTimeSignature (emptyData timeSignaturesChanged) (snd td) else merged) target m
      = (case filter (\<lambda>td. hasType (fst td) timeSignaturesChanged) target of
           [] \<Rightarrow> m | x # xs \<Rightarrow> snd (last (x # xs)))" for m
    by (induction target arbitrary: m)
      (auto simp: mergeTimeSignature_def createCopy_def split: list.splits)
  show ?thesis
    unfolding timeSignatureResolved_def resolveTimeSignature_def Let_def f
    by (auto simp: applyDelta_def split: list.splits)
qed

lemma clipsResolved_shape:
  "\<exists>data. clipsResolved h target = [\<lparr>delta = makeDelta headStateDelta clipsAdded, deltaData = data\<rparr>]"
  by (simp add: clipsResolved_def resolveClips_def Let_def applyDelta_def)

lemma emitted_types:
  "dd \<in> set (emitted h target sd) \<Longrightarrow>
     getType (delta dd) = getType (fst sd)
     \<or> getType (delta dd) = eventsAdded \<or> getType (delta dd) = clipsAdded"
  using strictOutput_types [of dd "fst sd" "snd sd" target]
  by (auto simp: emitted_def makeDelta_def split: if_splits)

lemma no_match_emitted:
  assumes "\<forall>td \<in> set target. \<not> deltasMatch (fst sd) (fst td)"
  shows "\<lparr>delta = fst sd, deltaData = snd sd\<rparr> \<in> set (emitted h target sd)"
  using assms by (simp add: emitted_def)

section \<open>Copy-forward\<close>

text \<open>
  Claim C4. A state delta that no target delta matches (no target delta of the same type
  and, if it belongs to the events or to the pattern family, no target delta of that
  family) is in the diff that \<^verbatim>\<open>createMergedItem\<close> returns, as it is and with its own
  payload.
\<close>

theorem createMergedItem_copy_forward:
  assumes "(stateDelta, stateDeltaData) \<in> set state"
    and "\<forall>td \<in> set target. getType stateDelta \<noteq> getType (fst td)"
    and "checkIfDeltaIsEventsType stateDelta \<longrightarrow> (\<forall>td \<in> set target. \<not> checkIfDeltaIsEventsType (fst td))"
    and "checkIfDeltaIsPatternType stateDelta \<longrightarrow> (\<forall>td \<in> set target. \<not> checkIfDeltaIsPatternType (fst td))"
  shows "\<lparr>delta = stateDelta, deltaData = stateDeltaData\<rparr> \<in> set (createMergedItem helpers state target)"
proof -
  have "\<forall>td \<in> set target. \<not> deltasMatch (fst (stateDelta, stateDeltaData)) (fst td)"
    using assms(2-4) by (auto simp: deltasMatch_def)
  then have "\<lparr>delta = stateDelta, deltaData = stateDeltaData\<rparr>
      \<in> set (emitted helpers target (stateDelta, stateDeltaData))"
    using no_match_emitted [of target "(stateDelta, stateDeltaData)" helpers] by simp
  then have "\<lparr>delta = stateDelta, deltaData = stateDeltaData\<rparr>
      \<in> set (concat (map (emitted helpers target) state))"
    using assms(1) by auto
  then show ?thesis by (simp add: createMergedItem_eq)
qed

theorem createMergedItem_copy_forward_witness:
  "(makeDelta headStateDelta trackPath, pathA) \<in> set pathState
   \<and> \<lparr>delta = makeDelta headStateDelta trackPath, deltaData = pathA\<rparr>
       \<in> set (createMergedItem exampleHelpers pathState timeSignatureTarget)"
proof -
  have 1: "(makeDelta headStateDelta trackPath, pathA) \<in> set pathState"
    by (simp add: pathState_def)
  have 2: "\<forall>td \<in> set timeSignatureTarget. getType (makeDelta headStateDelta trackPath) \<noteq> getType (fst td)"
    by (simp add: timeSignatureTarget_def makeDelta_def)
  have 3: "checkIfDeltaIsEventsType (makeDelta headStateDelta trackPath) \<longrightarrow>
      (\<forall>td \<in> set timeSignatureTarget. \<not> checkIfDeltaIsEventsType (fst td))"
    by (simp add: timeSignatureTarget_def makeDelta_def family_defs)
  have 4: "checkIfDeltaIsPatternType (makeDelta headStateDelta trackPath) \<longrightarrow>
      (\<forall>td \<in> set timeSignatureTarget. \<not> checkIfDeltaIsPatternType (fst td))"
    by (simp add: timeSignatureTarget_def makeDelta_def family_defs)
  show ?thesis
    using 1 createMergedItem_copy_forward [OF 1 2 3 4, of exampleHelpers] by (intro conjI)
qed

section \<open>Scalar deltas that only the target has\<close>

text \<open>
  Claim C10. If the state has no delta of one of the types \<open>trackPath\<close>, \<open>trackColour\<close>,
  \<open>trackInstrument\<close>, \<open>trackController\<close>, the diff that \<^verbatim>\<open>createMergedItem\<close> returns has
  no delta of that type, whatever the target holds: the second pass recovers only the time
  signature and the clips.
\<close>

theorem createMergedItem_scalar_not_recovered:
  assumes "t = trackPath \<or> t = trackColour \<or> t = trackInstrument \<or> t = trackController"
    and "\<forall>sd \<in> set state. getType (fst sd) \<noteq> t"
  shows "\<forall>dd \<in> set (createMergedItem helpers state target). getType (delta dd) \<noteq> t"
proof
  fix dd assume dd: "dd \<in> set (createMergedItem helpers state target)"
  have t: "t \<noteq> eventsAdded" "t \<noteq> clipsAdded" "t \<noteq> timeSignaturesChanged"
    using assms(1) by auto
  from dd consider
      (main) sd where "sd \<in> set state" "dd \<in> set (emitted helpers target sd)"
    | (ts) "dd \<in> set (timeSignatureResolved target)"
    | (clips) "dd \<in> set (clipsResolved helpers target)"
    by (auto simp: createMergedItem_eq split: if_splits)
  then show "getType (delta dd) \<noteq> t"
  proof cases
    case main
    then show ?thesis using emitted_types [of dd helpers target sd] assms(2) t by auto
  next
    case ts
    then show ?thesis using t by (auto simp: timeSignatureResolved_eq makeDelta_def)
  next
    case clips
    then show ?thesis
      using t clipsResolved_shape [of helpers target] by (auto simp: makeDelta_def)
  qed
qed

lemma createMergedItem_empty_state:
  "createMergedItem h [] target = timeSignatureResolved target @ clipsResolved h target"
  by (simp add: createMergedItem_eq stateHasTrackTimeSignature_iff stateHasClips_iff)

theorem createMergedItem_scalar_not_recovered_witness:
  "getType (fst (hd pathTarget)) = trackPath
   \<and> deltasOfType trackPath (createMergedItem exampleHelpers [] pathTarget) = []"
proof -
  have 1: "trackPath = trackPath \<or> trackPath = trackColour \<or> trackPath = trackInstrument
      \<or> trackPath = trackController" by simp
  have 2: "\<forall>sd \<in> set ([] :: TrackedItem). getType (fst sd) \<noteq> trackPath" by simp
  have "\<forall>dd \<in> set (createMergedItem exampleHelpers [] pathTarget). getType (delta dd) \<noteq> trackPath"
    by (rule createMergedItem_scalar_not_recovered [OF 1 2])
  then have "deltasOfType trackPath (createMergedItem exampleHelpers [] pathTarget) = []"
    by (simp add: deltasOfType_def filter_empty_conv hasType_def)
  moreover have "getType (fst (hd pathTarget)) = trackPath"
    by (simp add: pathTarget_def makeDelta_def)
  ultimately show ?thesis by (intro conjI)
qed

lemma isValid_mergeAutoEventsAdded: "isValid (mergeAutoEventsAdded s c)"
  by (simp add: mergeAutoEventsAdded_eq serializeAutoSequence_eq)

section \<open>One consolidated delta per family\<close>

text \<open>
  Claim C7, as stated: the diff of \<^verbatim>\<open>createMergedItem\<close> holds at most one delta of the
  events family, also when the state carries several. That fails: the accumulator is
  declared inside the loop over the state deltas, so a state with an \<open>eventsAdded\<close> and an
  \<open>eventsChanged\<close> delta and a target with one \<open>eventsAdded\<close> delta give two.
\<close>

theorem createMergedItem_two_events_deltas_counterexample:
  "length (eventsDeltas (createMergedItem exampleHelpers twoEventDeltasState oneEventDeltaTarget)) = 2"
proof -
  let ?sd1 = "(makeDelta headStateDelta eventsAdded, specExampleState)"
  let ?sd2 = "(makeDelta headStateDelta eventsChanged, specExampleChanges)"
  have m: "deltasMatch (makeDelta headStateDelta eventsAdded) (makeDelta headStateDelta eventsAdded)"
      "deltasMatch (makeDelta headStateDelta eventsChanged) (makeDelta headStateDelta eventsAdded)"
    by (simp_all add: deltasMatch_def family_defs makeDelta_def)
  have e1: "eventsDeltas (emitted exampleHelpers oneEventDeltaTarget ?sd1) =
      [\<lparr>delta = makeDelta headStateDelta eventsAdded,
        deltaData = mergeAutoEventsAdded specExampleState earlyChanges\<rparr>]"
    using m
    by (simp add: emitted_def oneEventDeltaTarget_def strictOutput_eq scalarType_def
        eventsAccumulated_def clipsAccumulated_def mergeEvents_def eventsDeltas_def
        isValid_mergeAutoEventsAdded family_defs makeDelta_def)
  have e2: "eventsDeltas (emitted exampleHelpers oneEventDeltaTarget ?sd2) =
      [\<lparr>delta = makeDelta headStateDelta eventsAdded,
        deltaData = mergeAutoEventsAdded specExampleChanges earlyChanges\<rparr>]"
    using m
    by (simp add: emitted_def oneEventDeltaTarget_def strictOutput_eq scalarType_def
        eventsAccumulated_def clipsAccumulated_def mergeEvents_def eventsDeltas_def
        isValid_mergeAutoEventsAdded family_defs makeDelta_def)
  have r: "eventsDeltas (timeSignatureResolved oneEventDeltaTarget) = []"
      "eventsDeltas (clipsResolved exampleHelpers oneEventDeltaTarget) = []"
    using clipsResolved_shape [of exampleHelpers oneEventDeltaTarget]
    by (auto simp: timeSignatureResolved_eq eventsDeltas_def family_defs makeDelta_def)
  have "eventsDeltas (createMergedItem exampleHelpers twoEventDeltasState oneEventDeltaTarget) =
      eventsDeltas (emitted exampleHelpers oneEventDeltaTarget ?sd1) @
      eventsDeltas (emitted exampleHelpers oneEventDeltaTarget ?sd2) @
      eventsDeltas (timeSignatureResolved oneEventDeltaTarget) @
      eventsDeltas (clipsResolved exampleHelpers oneEventDeltaTarget)"
    by (simp add: createMergedItem_eq twoEventDeltasState_def stateHasTrackTimeSignature_iff
        stateHasClips_iff eventsDeltas_def family_defs makeDelta_def)
  then show ?thesis
    unfolding e1 e2 r by simp
qed

text \<open>
  Claim C7, amended. For every state and target, the diff of \<^verbatim>\<open>createMergedItem\<close> holds at
  most as many deltas of the events family as the state does, and at most as many deltas of
  the pattern family as the state does, or one if the state has none: the target deltas of
  a family are consolidated into one delta per state delta of that family. So it holds at
  most one per family when the state holds at most one per family.
\<close>

theorem createMergedItem_family_counts:
  "length (eventsDeltas (createMergedItem helpers state target))
     \<le> length (filter (\<lambda>sd. checkIfDeltaIsEventsType (fst sd)) state)
   \<and> length (clipsDeltas (createMergedItem helpers state target))
     \<le> max 1 (length (filter (\<lambda>sd. checkIfDeltaIsPatternType (fst sd)) state))"
proof -
  have ts_e: "eventsDeltas (timeSignatureResolved target) = []"
    by (simp add: timeSignatureResolved_eq eventsDeltas_def family_defs makeDelta_def)
  have ts_c: "clipsDeltas (timeSignatureResolved target) = []"
    by (simp add: timeSignatureResolved_eq clipsDeltas_def family_defs makeDelta_def)
  have cl_e: "eventsDeltas (clipsResolved helpers target) = []"
    using clipsResolved_shape [of helpers target]
    by (auto simp: eventsDeltas_def family_defs makeDelta_def)
  have cl_c: "length (clipsDeltas (clipsResolved helpers target)) = 1"
    using clipsResolved_shape [of helpers target]
    by (auto simp: clipsDeltas_def family_defs makeDelta_def)
  have e: "eventsDeltas (createMergedItem helpers state target)
      = eventsDeltas (concat (map (emitted helpers target) state))"
    using ts_e cl_e by (simp add: createMergedItem_eq eventsDeltas_def)
  have 1: "length (eventsDeltas (createMergedItem helpers state target))
     \<le> length (filter (\<lambda>sd. checkIfDeltaIsEventsType (fst sd)) state)"
    unfolding e by (rule eventsDeltas_main)
  have 2: "length (clipsDeltas (createMergedItem helpers state target))
     \<le> max 1 (length (filter (\<lambda>sd. checkIfDeltaIsPatternType (fst sd)) state))"
  proof (cases "stateHasClips state")
    case True
    then have "clipsDeltas (createMergedItem helpers state target)
        = clipsDeltas (concat (map (emitted helpers target) state))"
      using ts_c by (simp add: createMergedItem_eq clipsDeltas_def)
    then show ?thesis using clipsDeltas_main [of helpers target state] by simp
  next
    case False
    then have "filter (\<lambda>sd. checkIfDeltaIsPatternType (fst sd)) state = []"
      by (simp add: stateHasClips_iff filter_empty_conv)
    then have "clipsDeltas (concat (map (emitted helpers target) state)) = []"
      using clipsDeltas_main [of helpers target state] by simp
    moreover have "clipsDeltas (createMergedItem helpers state target)
        = clipsDeltas (concat (map (emitted helpers target) state)) @
          clipsDeltas (clipsResolved helpers target)"
      using False ts_c by (simp add: createMergedItem_eq clipsDeltas_def)
    ultimately show ?thesis using cl_c by simp
  qed
  show ?thesis using 1 2 by (intro conjI)
qed

theorem createMergedItem_family_counts_witness:
  "length (eventsDeltas (createMergedItem exampleHelpers oneEventDeltaState oneEventDeltaTarget)) \<le> 1
   \<and> length (clipsDeltas (createMergedItem exampleHelpers oneEventDeltaState oneEventDeltaTarget)) \<le> 1"
  using createMergedItem_family_counts [of exampleHelpers oneEventDeltaState oneEventDeltaTarget]
  by (simp add: oneEventDeltaState_def family_defs makeDelta_def)

lemma strict_in_emitted:
  assumes "td \<in> set target" "getType (fst sd) = getType (fst td)" "scalarType (getType (fst td))"
  shows "\<lparr>delta = makeDelta (getDescription (fst td)) (getType (fst td)), deltaData = snd td\<rparr>
      \<in> set (emitted h target sd)"
proof -
  have "\<lparr>delta = makeDelta (getDescription (fst td)) (getType (fst td)), deltaData = snd td\<rparr>
      \<in> set (strictOutput (fst sd) (snd sd) td)"
    using assms(2,3) by (simp add: strictOutput_eq)
  then have "\<lparr>delta = makeDelta (getDescription (fst td)) (getType (fst td)), deltaData = snd td\<rparr>
      \<in> set (concat (map (strictOutput (fst sd) (snd sd)) target))"
    using assms(1) by auto
  then show ?thesis by (simp add: emitted_def)
qed

lemma emitted_scalar_payload:
  assumes dd: "dd \<in> set (emitted h target sd)"
    and ty: "getType (delta dd) = t" "scalarType t"
    and tg: "\<exists>td \<in> set target. getType (fst td) = t"
  shows "deltaData dd \<in> snd ` set target"
proof -
  have ne: "t \<noteq> eventsAdded" "t \<noteq> clipsAdded" using ty(2) by (auto simp: scalarType_def)
  from dd consider
      (strict) "dd \<in> set (concat (map (strictOutput (fst sd) (snd sd)) target))"
    | (events) "getType (delta dd) = eventsAdded"
    | (clips) "getType (delta dd) = clipsAdded"
    | (copy) "dd = \<lparr>delta = fst sd, deltaData = snd sd\<rparr>"
        "\<forall>td \<in> set target. \<not> deltasMatch (fst sd) (fst td)"
    by (auto simp: emitted_def makeDelta_def split: if_splits)
  then show ?thesis
  proof cases
    case strict
    then show ?thesis by (force simp: strictOutput_eq split: if_splits)
  next
    case events
    then show ?thesis using ty ne by simp
  next
    case clips
    then show ?thesis using ty ne by simp
  next
    case copy
    then have "getType (fst sd) = t" using ty by simp
    then show ?thesis using copy(2) tg by (auto simp: deltasMatch_def)
  qed
qed

section \<open>Scalar deltas: the last write wins\<close>

text \<open>
  Claim C5. For the five scalar types, the merge function returns the payload of the
  changes whatever the state holds, and when the state and the target both have a delta of
  such a type, the diff of \<^verbatim>\<open>createMergedItem\<close> holds the target's delta with the target's
  payload, and every delta of that type in it carries a payload of the target. The witness
  is the example with the paths "A" and "B".
\<close>

theorem scalar_merge_last_write_wins:
  assumes "(stateDelta, stateDeltaData) \<in> set state"
    and "(targetDelta, targetDeltaData) \<in> set target"
    and "getType stateDelta = getType targetDelta"
    and "getType targetDelta = trackPath \<or> getType targetDelta = trackColour
         \<or> getType targetDelta = trackInstrument \<or> getType targetDelta = trackController
         \<or> getType targetDelta = timeSignaturesChanged"
  shows "mergeController stateDeltaData targetDeltaData = targetDeltaData
       \<and> mergePath stateDeltaData targetDeltaData = targetDeltaData
       \<and> mergeColour stateDeltaData targetDeltaData = targetDeltaData
       \<and> mergeInstrument stateDeltaData targetDeltaData = targetDeltaData
       \<and> mergeTimeSignature stateDeltaData targetDeltaData = targetDeltaData
       \<and> \<lparr>delta = makeDelta (getDescription targetDelta) (getType targetDelta),
           deltaData = targetDeltaData\<rparr> \<in> set (createMergedItem helpers state target)
       \<and> (\<forall>dd \<in> set (createMergedItem helpers state target).
             getType (delta dd) = getType targetDelta \<longrightarrow> deltaData dd \<in> snd ` set target)"
proof -
  have sc: "scalarType (getType targetDelta)" using assms(4) by (simp add: scalarType_def)
  have 1: "mergeController stateDeltaData targetDeltaData = targetDeltaData"
    by (simp add: mergeController_def createCopy_def)
  have 2: "mergePath stateDeltaData targetDeltaData = targetDeltaData"
    by (simp add: mergePath_def createCopy_def)
  have 3: "mergeColour stateDeltaData targetDeltaData = targetDeltaData"
    by (simp add: mergeColour_def createCopy_def)
  have 4: "mergeInstrument stateDeltaData targetDeltaData = targetDeltaData"
    by (simp add: mergeInstrument_def createCopy_def)
  have 5: "mergeTimeSignature stateDeltaData targetDeltaData = targetDeltaData"
    by (simp add: mergeTimeSignature_def createCopy_def)
  have "\<lparr>delta = makeDelta (getDescription targetDelta) (getType targetDelta),
           deltaData = targetDeltaData\<rparr>
      \<in> set (emitted helpers target (stateDelta, stateDeltaData))"
    using strict_in_emitted [of "(targetDelta, targetDeltaData)" target "(stateDelta, stateDeltaData)" helpers]
      assms(2,3) sc by simp
  then have "\<lparr>delta = makeDelta (getDescription targetDelta) (getType targetDelta),
           deltaData = targetDeltaData\<rparr>
      \<in> set (concat (map (emitted helpers target) state))"
    using assms(1) by auto
  then have 6: "\<lparr>delta = makeDelta (getDescription targetDelta) (getType targetDelta),
           deltaData = targetDeltaData\<rparr> \<in> set (createMergedItem helpers state target)"
    by (simp add: createMergedItem_eq)
  have 7: "\<forall>dd \<in> set (createMergedItem helpers state target).
             getType (delta dd) = getType targetDelta \<longrightarrow> deltaData dd \<in> snd ` set target"
  proof (intro ballI impI)
    fix dd assume dd: "dd \<in> set (createMergedItem helpers state target)"
      and ty: "getType (delta dd) = getType targetDelta"
    have tg: "\<exists>td \<in> set target. getType (fst td) = getType targetDelta"
      using assms(2) by force
    have hasTS: "getType targetDelta = timeSignaturesChanged \<Longrightarrow> stateHasTrackTimeSignature state"
      using assms(1,3) by (force simp: stateHasTrackTimeSignature_iff hasType_def)
    from dd consider
        (main) sd where "sd \<in> set state" "dd \<in> set (emitted helpers target sd)"
      | (ts) "\<not> stateHasTrackTimeSignature state" "dd \<in> set (timeSignatureResolved target)"
      | (clips) "dd \<in> set (clipsResolved helpers target)"
      by (auto simp: createMergedItem_eq split: if_splits)
    then show "deltaData dd \<in> snd ` set target"
    proof cases
      case main
      then show ?thesis using emitted_scalar_payload [OF main(2) ty sc tg] by simp
    next
      case ts
      then have "getType (delta dd) = timeSignaturesChanged"
        by (auto simp: timeSignatureResolved_eq makeDelta_def)
      then show ?thesis using ts(1) hasTS ty by simp
    next
      case clips
      then have "getType (delta dd) = clipsAdded"
        using clipsResolved_shape [of helpers target] by (auto simp: makeDelta_def)
      then show ?thesis using ty sc by (auto simp: scalarType_def)
    qed
  qed
  show ?thesis using 1 2 3 4 5 6 7 by (intro conjI)
qed

theorem scalar_merge_last_write_wins_witness:
  "mergePath pathA pathB = pathB
   \<and> deltasOfType trackPath (createMergedItem exampleHelpers pathState pathTarget) =
       [\<lparr>delta = makeDelta (DeltaDescription ''moved'' None) trackPath, deltaData = pathB\<rparr>]"
proof -
  have 1: "(makeDelta headStateDelta trackPath, pathA) \<in> set pathState"
    by (simp add: pathState_def)
  have 2: "(makeDelta (DeltaDescription ''moved'' None) trackPath, pathB) \<in> set pathTarget"
    by (simp add: pathTarget_def)
  have 3: "getType (makeDelta headStateDelta trackPath)
      = getType (makeDelta (DeltaDescription ''moved'' None) trackPath)"
    by (simp add: makeDelta_def)
  have 4: "getType (makeDelta (DeltaDescription ''moved'' None) trackPath) = trackPath
      \<or> getType (makeDelta (DeltaDescription ''moved'' None) trackPath) = trackColour
      \<or> getType (makeDelta (DeltaDescription ''moved'' None) trackPath) = trackInstrument
      \<or> getType (makeDelta (DeltaDescription ''moved'' None) trackPath) = trackController
      \<or> getType (makeDelta (DeltaDescription ''moved'' None) trackPath) = timeSignaturesChanged"
    by (simp add: makeDelta_def)
  have a: "mergePath pathA pathB = pathB"
    using scalar_merge_last_write_wins [OF 1 2 3 4, of exampleHelpers] by (simp only:)
  have out: "createMergedItem exampleHelpers pathState pathTarget =
      [\<lparr>delta = makeDelta (DeltaDescription ''moved'' None) trackPath, deltaData = pathB\<rparr>]
      @ timeSignatureResolved pathTarget @ clipsResolved exampleHelpers pathTarget"
    by (simp add: createMergedItem_eq pathState_def pathTarget_def emitted_def strictOutput_eq
        scalarType_def eventsAccumulated_def clipsAccumulated_def deltasMatch_def
        stateHasTrackTimeSignature_iff stateHasClips_iff family_defs makeDelta_def)
  have ts: "deltasOfType trackPath (timeSignatureResolved pathTarget) = []"
    by (simp add: timeSignatureResolved_eq deltasOfType_def hasType_def makeDelta_def)
  have cl: "deltasOfType trackPath (clipsResolved exampleHelpers pathTarget) = []"
    using clipsResolved_shape [of exampleHelpers pathTarget]
    by (auto simp: deltasOfType_def hasType_def makeDelta_def)
  have b: "deltasOfType trackPath (createMergedItem exampleHelpers pathState pathTarget) =
       [\<lparr>delta = makeDelta (DeltaDescription ''moved'' None) trackPath, deltaData = pathB\<rparr>]"
    unfolding out using ts cl by (simp add: deltasOfType_def hasType_def makeDelta_def)
  show ?thesis using a b by (intro conjI)
qed

lemma timeSignatureDeltas_emitted:
  assumes "\<forall>sd \<in> set state. \<not> hasType (fst sd) timeSignaturesChanged"
  shows "timeSignatureDeltas (concat (map (emitted h target) state)) = []"
proof -
  have "\<not> hasType (delta dd) timeSignaturesChanged"
    if "dd \<in> set (concat (map (emitted h target) state))" for dd
  proof -
    from that obtain sd where sd: "sd \<in> set state" "dd \<in> set (emitted h target sd)" by auto
    then show ?thesis using emitted_types [OF sd(2)] assms by (auto simp: hasType_def)
  qed
  then show ?thesis by (simp add: timeSignatureDeltas_def filter_empty_conv)
qed

lemma clipsResolved_no_pattern:
  assumes "\<forall>td \<in> set target. \<not> checkIfDeltaIsPatternType (fst td)"
  shows "clipsResolved h target =
     [\<lparr>delta = makeDelta headStateDelta clipsAdded, deltaData = emptyData clipsAdded\<rparr>]"
proof -
  have "fold (\<lambda>td merged. if checkIfDeltaIsPatternType (fst td)
                then mergeClips h (emptyData clipsAdded) (fst td) (snd td) merged else merged)
          target m = m" for m
    using assms by (induction target arbitrary: m) simp_all
  then show ?thesis
    by (simp add: clipsResolved_def resolveClips_def Let_def applyDelta_def)
qed

lemma timeSignatureDeltas_resolved:
  "timeSignatureDeltas (timeSignatureResolved target) = timeSignatureResolved target"
  "timeSignatureDeltas (clipsResolved h target) = []"
  "clipsDeltas (timeSignatureResolved target) = []"
  "clipsDeltas (clipsResolved h target) = clipsResolved h target"
  using clipsResolved_shape [of h target]
  by (auto simp: timeSignatureResolved_eq timeSignatureDeltas_def clipsDeltas_def family_defs
      makeDelta_def)

lemma fold_if_filter:
  "fold (\<lambda>x a. if P x then f x a else a) xs a0 = fold f (filter P xs) a0"
  by (induction xs arbitrary: a0) simp_all

lemma clipsResolved_eq:
  "clipsResolved h target =
     [\<lparr>delta = makeDelta headStateDelta clipsAdded,
       deltaData =
         (let merged =
            fold (\<lambda>td merged.
                    if hasType (fst td) clipsAdded
                    then mergeClipsAdded h (if isValid merged then merged else emptyData clipsAdded) (snd td)
                    else if hasType (fst td) clipsRemoved
                    then mergeClipsRemoved h (if isValid merged then merged else emptyData clipsAdded) (snd td)
                    else if hasType (fst td) clipsChanged
                    then mergeClipsChanged h (if isValid merged then merged else emptyData clipsAdded) (snd td)
                    else merged)
              (filter (\<lambda>td. checkIfDeltaIsPatternType (fst td)) target) Invalid
          in if isValid merged then merged else emptyData clipsAdded)\<rparr>]"
proof -
  have m: "(\<lambda>td merged. mergeClips h (emptyData clipsAdded) (fst td) (snd td) merged) =
      (\<lambda>td merged.
                    if hasType (fst td) clipsAdded
                    then mergeClipsAdded h (if isValid merged then merged else emptyData clipsAdded) (snd td)
                    else if hasType (fst td) clipsRemoved
                    then mergeClipsRemoved h (if isValid merged then merged else emptyData clipsAdded) (snd td)
                    else if hasType (fst td) clipsChanged
                    then mergeClipsChanged h (if isValid merged then merged else emptyData clipsAdded) (snd td)
                    else merged)"
    by (intro ext) (simp add: mergeClips_def Let_def)
  have "fold (\<lambda>td merged. if checkIfDeltaIsPatternType (fst td)
                then mergeClips h (emptyData clipsAdded) (fst td) (snd td) merged else merged)
          target Invalid
      = fold (\<lambda>td merged. mergeClips h (emptyData clipsAdded) (fst td) (snd td) merged)
          (filter (\<lambda>td. checkIfDeltaIsPatternType (fst td)) target) Invalid"
    by (rule fold_if_filter)
  then show ?thesis
    unfolding m
    by (simp add: clipsResolved_def resolveClips_def Let_def applyDelta_def)
qed

lemma clipsResolved_single:
  assumes "filter (\<lambda>td. checkIfDeltaIsPatternType (fst td)) target = [(td, p)]"
  shows "clipsResolved h target =
     [\<lparr>delta = makeDelta headStateDelta clipsAdded,
       deltaData =
         (if hasType td clipsAdded
          then (if isValid (mergeClipsAdded h (emptyData clipsAdded) p)
                then mergeClipsAdded h (emptyData clipsAdded) p else emptyData clipsAdded)
          else if hasType td clipsRemoved
          then (if isValid (mergeClipsRemoved h (emptyData clipsAdded) p)
                then mergeClipsRemoved h (emptyData clipsAdded) p else emptyData clipsAdded)
          else (if isValid (mergeClipsChanged h (emptyData clipsAdded) p)
                then mergeClipsChanged h (emptyData clipsAdded) p else emptyData clipsAdded))\<rparr>]"
proof -
  have "(td, p) \<in> set (filter (\<lambda>td. checkIfDeltaIsPatternType (fst td)) target)"
    using assms by simp
  then have "checkIfDeltaIsPatternType td" by simp
  then have "hasType td clipsAdded \<or> hasType td clipsRemoved \<or> hasType td clipsChanged"
    by (auto simp: checkIfDeltaIsPatternType_def)
  then show ?thesis
    unfolding clipsResolved_eq assms by (auto simp: Let_def)
qed

section \<open>Forward compatibility\<close>

text \<open>
  Claim C6. If the state has no time signature delta, the diff of \<^verbatim>\<open>createMergedItem\<close>
  holds exactly one: with the empty payload if the target has none, and with the merge of
  the empty payload and the target's payload if the target has one, which is the target's
  payload (a target delta whose payload is not a valid tree counts as absent: the diff then
  holds the empty payload). If the state has no delta of the pattern family, the diff holds
  exactly one, of type \<open>clipsAdded\<close>: with the empty payload if the target has no delta of
  the pattern family; with the merge of the empty payload and the target's payload, by the
  clip merger of the target delta's type, if the target has one such delta; and in general
  with the result of merging the target's pattern deltas one after the other, in the order
  of the target, the first into the empty payload and each further one into the result so
  far (the empty payload again where a merger returns no valid tree).
\<close>

theorem createMergedItem_forward_compatibility:
  "((\<forall>sd \<in> set state. \<not> hasType (fst sd) timeSignaturesChanged) \<longrightarrow>
      length (timeSignatureDeltas (createMergedItem helpers state target)) = 1
      \<and> ((\<forall>td \<in> set target. \<not> hasType (fst td) timeSignaturesChanged) \<longrightarrow>
            timeSignatureDeltas (createMergedItem helpers state target) =
              [\<lparr>delta = makeDelta headStateDelta timeSignaturesChanged,
                deltaData = emptyData timeSignaturesChanged\<rparr>])
      \<and> (\<forall>td p. filter (\<lambda>td. hasType (fst td) timeSignaturesChanged) target = [(td, p)] \<and> isValid p \<longrightarrow>
            timeSignatureDeltas (createMergedItem helpers state target) =
              [\<lparr>delta = makeDelta headStateDelta timeSignaturesChanged,
                deltaData = mergeTimeSignature (emptyData timeSignaturesChanged) p\<rparr>]
            \<and> mergeTimeSignature (emptyData timeSignaturesChanged) p = p)
      \<and> (\<forall>td p. filter (\<lambda>td. hasType (fst td) timeSignaturesChanged) target = [(td, p)] \<and> \<not> isValid p \<longrightarrow>
            timeSignatureDeltas (createMergedItem helpers state target) =
              [\<lparr>delta = makeDelta headStateDelta timeSignaturesChanged,
                deltaData = emptyData timeSignaturesChanged\<rparr>]))
   \<and> ((\<forall>sd \<in> set state. \<not> checkIfDeltaIsPatternType (fst sd)) \<longrightarrow>
      (\<exists>data. clipsDeltas (createMergedItem helpers state target) =
                [\<lparr>delta = makeDelta headStateDelta clipsAdded, deltaData = data\<rparr>])
      \<and> ((\<forall>td \<in> set target. \<not> checkIfDeltaIsPatternType (fst td)) \<longrightarrow>
            clipsDeltas (createMergedItem helpers state target) =
              [\<lparr>delta = makeDelta headStateDelta clipsAdded, deltaData = emptyData clipsAdded\<rparr>])
      \<and> (\<forall>td p. filter (\<lambda>td. checkIfDeltaIsPatternType (fst td)) target = [(td, p)]
                 \<and> hasType td clipsAdded \<longrightarrow>
            clipsDeltas (createMergedItem helpers state target) =
              [\<lparr>delta = makeDelta headStateDelta clipsAdded,
                deltaData = (if isValid (mergeClipsAdded helpers (emptyData clipsAdded) p)
                             then mergeClipsAdded helpers (emptyData clipsAdded) p
                             else emptyData clipsAdded)\<rparr>])
      \<and> (\<forall>td p. filter (\<lambda>td. checkIfDeltaIsPatternType (fst td)) target = [(td, p)]
                 \<and> hasType td clipsRemoved \<longrightarrow>
            clipsDeltas (createMergedItem helpers state target) =
              [\<lparr>delta = makeDelta headStateDelta clipsAdded,
                deltaData = (if isValid (mergeClipsRemoved helpers (emptyData clipsAdded) p)
                             then mergeClipsRemoved helpers (emptyData clipsAdded) p
                             else emptyData clipsAdded)\<rparr>])
      \<and> (\<forall>td p. filter (\<lambda>td. checkIfDeltaIsPatternType (fst td)) target = [(td, p)]
                 \<and> hasType td clipsChanged \<longrightarrow>
            clipsDeltas (createMergedItem helpers state target) =
              [\<lparr>delta = makeDelta headStateDelta clipsAdded,
                deltaData = (if isValid (mergeClipsChanged helpers (emptyData clipsAdded) p)
                             then mergeClipsChanged helpers (emptyData clipsAdded) p
                             else emptyData clipsAdded)\<rparr>])
      \<and> clipsDeltas (createMergedItem helpers state target) =
          [\<lparr>delta = makeDelta headStateDelta clipsAdded,
            deltaData =
              (let merged =
                 fold (\<lambda>td merged.
                         if hasType (fst td) clipsAdded
                         then mergeClipsAdded helpers
                                (if isValid merged then merged else emptyData clipsAdded) (snd td)
                         else if hasType (fst td) clipsRemoved
                         then mergeClipsRemoved helpers
                                (if isValid merged then merged else emptyData clipsAdded) (snd td)
                         else if hasType (fst td) clipsChanged
                         then mergeClipsChanged helpers
                                (if isValid merged then merged else emptyData clipsAdded) (snd td)
                         else merged)
                   (filter (\<lambda>td. checkIfDeltaIsPatternType (fst td)) target) Invalid
               in if isValid merged then merged else emptyData clipsAdded)\<rparr>])"
proof (intro conjI impI)
  assume noTS: "\<forall>sd \<in> set state. \<not> hasType (fst sd) timeSignaturesChanged"
  have ts: "timeSignatureDeltas (createMergedItem helpers state target) = timeSignatureResolved target"
    using noTS timeSignatureDeltas_emitted [OF noTS, of helpers target]
      timeSignatureDeltas_resolved(1) [of target] timeSignatureDeltas_resolved(2) [of helpers target]
    by (simp add: createMergedItem_eq stateHasTrackTimeSignature_iff timeSignatureDeltas_def)
  show "length (timeSignatureDeltas (createMergedItem helpers state target)) = 1"
    unfolding ts by (simp add: timeSignatureResolved_eq)
  show "timeSignatureDeltas (createMergedItem helpers state target) =
              [\<lparr>delta = makeDelta headStateDelta timeSignaturesChanged,
                deltaData = emptyData timeSignaturesChanged\<rparr>]"
    if "\<forall>td \<in> set target. \<not> hasType (fst td) timeSignaturesChanged"
  proof -
    have "filter (\<lambda>td. hasType (fst td) timeSignaturesChanged) target = []"
      using that by (simp add: filter_empty_conv)
    then show ?thesis unfolding ts by (simp add: timeSignatureResolved_eq)
  qed
  show "\<forall>td p. filter (\<lambda>td. hasType (fst td) timeSignaturesChanged) target = [(td, p)] \<and> isValid p \<longrightarrow>
            timeSignatureDeltas (createMergedItem helpers state target) =
              [\<lparr>delta = makeDelta headStateDelta timeSignaturesChanged,
                deltaData = mergeTimeSignature (emptyData timeSignaturesChanged) p\<rparr>]
            \<and> mergeTimeSignature (emptyData timeSignaturesChanged) p = p"
    unfolding ts by (simp add: timeSignatureResolved_eq mergeTimeSignature_def createCopy_def)
  show "\<forall>td p. filter (\<lambda>td. hasType (fst td) timeSignaturesChanged) target = [(td, p)] \<and> \<not> isValid p \<longrightarrow>
            timeSignatureDeltas (createMergedItem helpers state target) =
              [\<lparr>delta = makeDelta headStateDelta timeSignaturesChanged,
                deltaData = emptyData timeSignaturesChanged\<rparr>]"
    unfolding ts by (simp add: timeSignatureResolved_eq)
next
  assume noClips: "\<forall>sd \<in> set state. \<not> checkIfDeltaIsPatternType (fst sd)"
  have "filter (\<lambda>sd. checkIfDeltaIsPatternType (fst sd)) state = []"
    using noClips by (simp add: filter_empty_conv)
  then have main: "clipsDeltas (concat (map (emitted helpers target) state)) = []"
    using clipsDeltas_main [of helpers target state] by simp
  have cl: "clipsDeltas (createMergedItem helpers state target) = clipsResolved helpers target"
    using noClips main timeSignatureDeltas_resolved(3) [of target]
      timeSignatureDeltas_resolved(4) [of helpers target]
    by (simp add: createMergedItem_eq stateHasClips_iff clipsDeltas_def)
  show "\<exists>data. clipsDeltas (createMergedItem helpers state target) =
                [\<lparr>delta = makeDelta headStateDelta clipsAdded, deltaData = data\<rparr>]"
    unfolding cl by (rule clipsResolved_shape)
  show "clipsDeltas (createMergedItem helpers state target) =
              [\<lparr>delta = makeDelta headStateDelta clipsAdded, deltaData = emptyData clipsAdded\<rparr>]"
    if "\<forall>td \<in> set target. \<not> checkIfDeltaIsPatternType (fst td)"
    unfolding cl using that by (rule clipsResolved_no_pattern)
  show "\<forall>td p. filter (\<lambda>td. checkIfDeltaIsPatternType (fst td)) target = [(td, p)]
                 \<and> hasType td clipsAdded \<longrightarrow>
            clipsDeltas (createMergedItem helpers state target) =
              [\<lparr>delta = makeDelta headStateDelta clipsAdded,
                deltaData = (if isValid (mergeClipsAdded helpers (emptyData clipsAdded) p)
                             then mergeClipsAdded helpers (emptyData clipsAdded) p
                             else emptyData clipsAdded)\<rparr>]"
    unfolding cl using clipsResolved_single [of target _ _ helpers] by simp
  show "\<forall>td p. filter (\<lambda>td. checkIfDeltaIsPatternType (fst td)) target = [(td, p)]
                 \<and> hasType td clipsRemoved \<longrightarrow>
            clipsDeltas (createMergedItem helpers state target) =
              [\<lparr>delta = makeDelta headStateDelta clipsAdded,
                deltaData = (if isValid (mergeClipsRemoved helpers (emptyData clipsAdded) p)
                             then mergeClipsRemoved helpers (emptyData clipsAdded) p
                             else emptyData clipsAdded)\<rparr>]"
    unfolding cl using clipsResolved_single [of target _ _ helpers] by (simp add: hasType_def)
  show "\<forall>td p. filter (\<lambda>td. checkIfDeltaIsPatternType (fst td)) target = [(td, p)]
                 \<and> hasType td clipsChanged \<longrightarrow>
            clipsDeltas (createMergedItem helpers state target) =
              [\<lparr>delta = makeDelta headStateDelta clipsAdded,
                deltaData = (if isValid (mergeClipsChanged helpers (emptyData clipsAdded) p)
                             then mergeClipsChanged helpers (emptyData clipsAdded) p
                             else emptyData clipsAdded)\<rparr>]"
    unfolding cl using clipsResolved_single [of target _ _ helpers] by (simp add: hasType_def)
  show "clipsDeltas (createMergedItem helpers state target) =
          [\<lparr>delta = makeDelta headStateDelta clipsAdded,
            deltaData =
              (let merged =
                 fold (\<lambda>td merged.
                         if hasType (fst td) clipsAdded
                         then mergeClipsAdded helpers
                                (if isValid merged then merged else emptyData clipsAdded) (snd td)
                         else if hasType (fst td) clipsRemoved
                         then mergeClipsRemoved helpers
                                (if isValid merged then merged else emptyData clipsAdded) (snd td)
                         else if hasType (fst td) clipsChanged
                         then mergeClipsChanged helpers
                                (if isValid merged then merged else emptyData clipsAdded) (snd td)
                         else merged)
                   (filter (\<lambda>td. checkIfDeltaIsPatternType (fst td)) target) Invalid
               in if isValid merged then merged else emptyData clipsAdded)\<rparr>]"
    unfolding cl by (rule clipsResolved_eq)
qed

theorem createMergedItem_forward_compatibility_witness:
  "timeSignatureDeltas (createMergedItem exampleHelpers pathState timeSignatureTarget) =
     [\<lparr>delta = makeDelta headStateDelta timeSignaturesChanged, deltaData = timeSignatureData\<rparr>]
   \<and> clipsDeltas (createMergedItem exampleHelpers pathState timeSignatureTarget) =
     [\<lparr>delta = makeDelta headStateDelta clipsAdded, deltaData = emptyData clipsAdded\<rparr>]
   \<and> timeSignatureDeltas (createMergedItem exampleHelpers pathState pathTarget) =
     [\<lparr>delta = makeDelta headStateDelta timeSignaturesChanged,
       deltaData = emptyData timeSignaturesChanged\<rparr>]
   \<and> clipsDeltas (createMergedItem appendingHelpers pathState clipsTarget) =
     [\<lparr>delta = makeDelta headStateDelta clipsAdded, deltaData = Tree clipsAdded [] [clipA]\<rparr>]
   \<and> clipsDeltas (createMergedItem appendingHelpers pathState twoClipsTarget) =
     [\<lparr>delta = makeDelta headStateDelta clipsAdded, deltaData = Tree clipsAdded [] [clipA, clipB]\<rparr>]"
proof -
  have s1: "\<forall>sd \<in> set pathState. \<not> hasType (fst sd) timeSignaturesChanged"
    by (simp add: pathState_def hasType_def makeDelta_def)
  have s2: "\<forall>sd \<in> set pathState. \<not> checkIfDeltaIsPatternType (fst sd)"
    by (simp add: pathState_def family_defs makeDelta_def)
  have t1: "filter (\<lambda>td. hasType (fst td) timeSignaturesChanged) timeSignatureTarget =
      [(makeDelta (DeltaDescription ''changed'' None) timeSignaturesChanged, timeSignatureData)]
      \<and> isValid timeSignatureData"
    by (simp add: timeSignatureTarget_def hasType_def makeDelta_def timeSignatureData_def)
  have t2: "\<forall>td \<in> set timeSignatureTarget. \<not> checkIfDeltaIsPatternType (fst td)"
    by (simp add: timeSignatureTarget_def family_defs makeDelta_def)
  have t3: "\<forall>td \<in> set pathTarget. \<not> hasType (fst td) timeSignaturesChanged"
    by (simp add: pathTarget_def hasType_def makeDelta_def)
  have t4: "filter (\<lambda>td. checkIfDeltaIsPatternType (fst td)) clipsTarget =
      [(makeDelta (DeltaDescription ''added'' None) clipsAdded, Tree clipsAdded [] [clipA])]
      \<and> hasType (makeDelta (DeltaDescription ''added'' None) clipsAdded) clipsAdded"
    by (simp add: clipsTarget_def family_defs makeDelta_def)
  have t5: "filter (\<lambda>td. checkIfDeltaIsPatternType (fst td)) twoClipsTarget =
      [(makeDelta (DeltaDescription ''added'' None) clipsAdded, Tree clipsAdded [] [clipA]),
       (makeDelta (DeltaDescription ''changed'' None) clipsChanged, Tree clipsChanged [] [clipB])]"
    by (simp add: twoClipsTarget_def family_defs makeDelta_def)
  have a: "timeSignatureDeltas (createMergedItem exampleHelpers pathState timeSignatureTarget) =
     [\<lparr>delta = makeDelta headStateDelta timeSignaturesChanged, deltaData = timeSignatureData\<rparr>]"
    using createMergedItem_forward_compatibility [of pathState exampleHelpers timeSignatureTarget]
      s1 t1 by (simp add: mergeTimeSignature_def createCopy_def)
  have b: "clipsDeltas (createMergedItem exampleHelpers pathState timeSignatureTarget) =
     [\<lparr>delta = makeDelta headStateDelta clipsAdded, deltaData = emptyData clipsAdded\<rparr>]"
    using createMergedItem_forward_compatibility [of pathState exampleHelpers timeSignatureTarget]
      s2 t2 by blast
  have c: "timeSignatureDeltas (createMergedItem exampleHelpers pathState pathTarget) =
     [\<lparr>delta = makeDelta headStateDelta timeSignaturesChanged,
       deltaData = emptyData timeSignaturesChanged\<rparr>]"
    using createMergedItem_forward_compatibility [of pathState exampleHelpers pathTarget]
      s1 t3 by blast
  have "clipsDeltas (createMergedItem appendingHelpers pathState clipsTarget) =
     [\<lparr>delta = makeDelta headStateDelta clipsAdded,
       deltaData = (if isValid (mergeClipsAdded appendingHelpers (emptyData clipsAdded) (Tree clipsAdded [] [clipA]))
                    then mergeClipsAdded appendingHelpers (emptyData clipsAdded) (Tree clipsAdded [] [clipA])
                    else emptyData clipsAdded)\<rparr>]"
    using createMergedItem_forward_compatibility [of pathState appendingHelpers clipsTarget]
      s2 t4 by blast
  then have d: "clipsDeltas (createMergedItem appendingHelpers pathState clipsTarget) =
     [\<lparr>delta = makeDelta headStateDelta clipsAdded, deltaData = Tree clipsAdded [] [clipA]\<rparr>]"
    by (simp add: appendingHelpers_def appendClips_def emptyData_def)
  have "clipsDeltas (createMergedItem appendingHelpers pathState twoClipsTarget) =
          [\<lparr>delta = makeDelta headStateDelta clipsAdded,
            deltaData =
              (let merged =
                 fold (\<lambda>td merged.
                         if hasType (fst td) clipsAdded
                         then mergeClipsAdded appendingHelpers
                                (if isValid merged then merged else emptyData clipsAdded) (snd td)
                         else if hasType (fst td) clipsRemoved
                         then mergeClipsRemoved appendingHelpers
                                (if isValid merged then merged else emptyData clipsAdded) (snd td)
                         else if hasType (fst td) clipsChanged
                         then mergeClipsChanged appendingHelpers
                                (if isValid merged then merged else emptyData clipsAdded) (snd td)
                         else merged)
                   (filter (\<lambda>td. checkIfDeltaIsPatternType (fst td)) twoClipsTarget) Invalid
               in if isValid merged then merged else emptyData clipsAdded)\<rparr>]"
    using createMergedItem_forward_compatibility [of pathState appendingHelpers twoClipsTarget]
      s2 by blast
  then have e: "clipsDeltas (createMergedItem appendingHelpers pathState twoClipsTarget) =
     [\<lparr>delta = makeDelta headStateDelta clipsAdded, deltaData = Tree clipsAdded [] [clipA, clipB]\<rparr>]"
    unfolding t5
    by (simp add: appendingHelpers_def appendClips_def emptyData_def hasType_def makeDelta_def)
  show ?thesis using a b c d e by (intro conjI)
qed

end
